theory Spec2Isabelle
  imports Complex_Main "HOL-Library.Word" "HOL-Library.List_Lexorder" "HOL-Library.Char_ord"
begin

section \<open>Evopedia local archive (archive.js): shared data model\<close>

text \<open>
  JavaScript exceptions that escape a handler. \<open>Error\<close> carries the message of an
  explicit \<^verbatim>\<open>throw new Error(...)\<close>; \<open>TypeError\<close> is what indexing \<^verbatim>\<open>null\<close> or
  \<^verbatim>\<open>undefined\<close> raises; \<open>URIError\<close> is raised by \<^verbatim>\<open>decodeURIComponent\<close>;
  \<open>RangeError\<close> is the failure of a numeric decoder that is asked for bytes the
  array does not have.
\<close>

datatype js_error = Error string | TypeError | URIError | RangeError

text \<open>
  A handler either runs to its end or throws; in both cases the object it mutates in
  place is returned in the state it was left in.
\<close>

datatype 'a completion = Completed 'a | Threw js_error 'a

type_synonym byte = "8 word"

section \<open>Metadata parsing (readMetadataFile)\<close>

text \<open>
  The three regular expressions have the shape
  \<^verbatim>\<open>/\nKEY ?\= ?([^ \n]+)/\<close>. \<open>regex_here key s\<close> matches it anchored at the head of
  \<open>s\<close> and returns capture group 1. An optional space is followed by an element that
  cannot match a space, so greedy matching with backtracking is the same as skipping one
  space when there is one.
\<close>

definition newline :: char where
  "newline = CHR 0x0A"

definition space :: char where
  "space = CHR 0x20"

fun skip_opt_space :: "string \<Rightarrow> string" where
  "skip_opt_space [] = []"
| "skip_opt_space (c # cs) = (if c = space then cs else c # cs)"

definition token_char :: "char \<Rightarrow> bool" where
  "token_char c = (c \<noteq> space \<and> c \<noteq> newline)"

definition regex_here :: "string \<Rightarrow> string \<Rightarrow> string option" where
  "regex_here key s =
     (if take (Suc (length key)) s = newline # key then
        (case skip_opt_space (drop (Suc (length key)) s) of
           [] \<Rightarrow> None
         | c # r \<Rightarrow>
             if c = CHR ''='' then
               (let tok = takeWhile token_char (skip_opt_space r)
                in if tok = [] then None else Some tok)
             else None)
      else None)"

text \<open>\<^verbatim>\<open>regex.exec(metadata)\<close>: the leftmost match, or \<open>None\<close> for \<^verbatim>\<open>null\<close>.\<close>

fun regex_exec :: "string \<Rightarrow> string \<Rightarrow> string option" where
  "regex_exec key [] = regex_here key []"
| "regex_exec key (c # cs) =
     (case regex_here key (c # cs) of
        Some tok \<Rightarrow> Some tok
      | None \<Rightarrow> regex_exec key cs)"

text \<open>
  The regular expression read as a description of texts, independently of the matcher
  above: at position \<open>i\<close> of the text there is a newline, the key, at most one space, an
  equals sign, at most one space, and then the token, a non-empty run of characters other
  than space and newline that ends at the end of the text or before a space or a newline.
\<close>

definition key_value_at :: "string \<Rightarrow> string \<Rightarrow> nat \<Rightarrow> string \<Rightarrow> bool" where
  "key_value_at key md i tok =
     (\<exists>sp1 sp2 post.
        drop i md = newline # key @ sp1 @ CHR ''='' # sp2 @ tok @ post
        \<and> (sp1 = [] \<or> sp1 = [space]) \<and> (sp2 = [] \<or> sp2 = [space])
        \<and> tok \<noteq> [] \<and> (\<forall>c \<in> set tok. c \<noteq> space \<and> c \<noteq> newline)
        \<and> (post = [] \<or> hd post = space \<or> hd post = newline))"

text \<open>The token of the first position of the text that has the key in this form.\<close>

definition first_key_value :: "string \<Rightarrow> string \<Rightarrow> string \<Rightarrow> bool" where
  "first_key_value key md tok =
     (\<exists>i. key_value_at key md i tok \<and> (\<forall>j<i. \<forall>t. \<not> key_value_at key md j t))"

record metadata =
  language :: "string option"
  date :: "string option"
  normalizedTitles :: bool

text \<open>
  The \<^verbatim>\<open>onload\<close> handler of readMetadataFile. \<^verbatim>\<open>exec(metadata)[1]\<close> on a failed match
  indexes \<^verbatim>\<open>null\<close> and throws; the fields assigned before stay assigned.
\<close>

definition readMetadataFile :: "string \<Rightarrow> 'a metadata_scheme \<Rightarrow> 'a metadata_scheme completion" where
  "readMetadataFile md a =
     (case regex_exec ''language'' md of
        None \<Rightarrow> Threw TypeError a
      | Some l \<Rightarrow>
          (let a1 = a\<lparr>language := Some l\<rparr> in
           case regex_exec ''date'' md of
             None \<Rightarrow> Threw TypeError a1
           | Some d \<Rightarrow>
               (let a2 = a1\<lparr>date := Some d\<rparr> in
                case regex_exec ''normalized_titles'' md of
                  Some normalizedTitlesInt \<Rightarrow>
                    if normalizedTitlesInt = ''0''
                    then Completed (a2\<lparr>normalizedTitles := False\<rparr>)
                    else Completed (a2\<lparr>normalizedTitles := True\<rparr>)
                | None \<Rightarrow> Completed (a2\<lparr>normalizedTitles := True\<rparr>))))"

section \<open>Byte I/O collaborators (util.js)\<close>

text \<open>\<^verbatim>\<open>file.slice(start, end)\<close> followed by a read: the bytes of the range, cut at the end of the file.\<close>

definition blob_slice :: "'a list \<Rightarrow> nat \<Rightarrow> nat \<Rightarrow> 'a list" where
  "blob_slice f start end = take (end - start) (drop start f)"

text \<open>
  Modelled from the spec: \<^verbatim>\<open>util.readIntegerFrom2Bytes\<close> and \<^verbatim>\<open>util.readIntegerFrom4Bytes\<close>
  are missing from the sources; the spec gives them as the little-endian decoders
  \<open>u16le\<close> and \<open>u32le\<close>, "total and infallible on correctly-sized inputs". A read that
  leaves the array is a \<open>RangeError\<close> here.
\<close>

definition readIntegerFrom2Bytes :: "byte list \<Rightarrow> nat \<Rightarrow> nat option" where
  "readIntegerFrom2Bytes byteArray firstIndex =
     (if firstIndex + 2 \<le> length byteArray
      then Some (unat (byteArray ! firstIndex) + 256 * unat (byteArray ! (firstIndex + 1)))
      else None)"

definition readIntegerFrom4Bytes :: "byte list \<Rightarrow> nat \<Rightarrow> nat option" where
  "readIntegerFrom4Bytes byteArray firstIndex =
     (if firstIndex + 4 \<le> length byteArray
      then Some (unat (byteArray ! firstIndex)
                 + 256 * unat (byteArray ! (firstIndex + 1))
                 + 65536 * unat (byteArray ! (firstIndex + 2))
                 + 16777216 * unat (byteArray ! (firstIndex + 3)))
      else None)"

text \<open>Number to string conversion of \<^verbatim>\<open>"..." + n\<close>, for the non-negative integers used here.\<close>

fun string_of_nat :: "nat \<Rightarrow> string" where
  "string_of_nat n =
     (if n < 10 then [''0123456789'' ! n]
      else string_of_nat (n div 10) @ [''0123456789'' ! (n mod 10)])"

declare string_of_nat.simps [simp del]

section \<open>Titles and redirect resolution (resolveRedirect)\<close>

text \<open>
  A JavaScript number that is a non-negative integer, or \<^verbatim>\<open>NaN\<close> (the value of
  \<^verbatim>\<open>1 * undefined\<close>).
\<close>

datatype js_number = Number nat | NaN

text \<open>Number to string conversion and the comparison \<^verbatim>\<open>x < 10\<close>, which is false for \<^verbatim>\<open>NaN\<close>.\<close>

fun string_of_number :: "js_number \<Rightarrow> string" where
  "string_of_number (Number n) = string_of_nat n"
| "string_of_number NaN = ''NaN''"

fun less_than_ten :: "js_number \<Rightarrow> bool" where
  "less_than_ten (Number n) = (n < 10)"
| "less_than_ten NaN = False"

text \<open>
  A Title object with the fields archive.js reads and writes. The type parameter is the
  number type of the coordinates. \<open>titleOffset\<close> and \<open>geolocation\<close> are optional.
\<close>

record 'f title =
  name :: string
  fileNr :: js_number
  blockStart :: nat
  blockOffset :: nat
  articleLength :: nat
  titleOffset :: "nat option"
  geolocation :: "('f \<times> 'f) option"

text \<open>
  The \<^verbatim>\<open>onload\<close> handler of resolveRedirect on the 16 bytes read at \<open>blockStart\<close> of the
  title file. The result is the list of alerts raised and how the handler ended:
  \<open>Completed t'\<close> when it invoked the callback with the title, which is the same object,
  now in state \<open>t'\<close>; \<open>Threw e t'\<close> when it threw \<open>e\<close> without invoking the callback and
  left the title object in state \<open>t'\<close>. On an empty read the handler alerts and throws
  before any assignment. Otherwise the four assignments run in order; \<^verbatim>\<open>byteArray[2]\<close> of
  an array of one or two bytes is \<^verbatim>\<open>undefined\<close>, and a decoder that fails leaves the
  earlier assignments in place. The read itself is taken to succeed.
\<close>

definition resolveRedirect :: "byte list \<Rightarrow> 'f title \<Rightarrow> string list \<times> 'f title completion" where
  "resolveRedirect titleFile t =
     (let byteArray = blob_slice titleFile (blockStart t) (blockStart t + 16) in
      if length byteArray = 0 then
        ([''Oops : there seems to be something wrong in your archive. Please report it to us by email or through Github (see About section), with the names of the archive and article and the following info : ''
          @ ''Unable to find redirected article for title '' @ name t @ '' : offset ''
          @ string_of_nat (blockStart t) @ '' not found in title file''],
         Threw (Error (''Unable to find redirected article for title '' @ name t @ '' : offset ''
                       @ string_of_nat (blockStart t) @ '' not found in title file'')) t)
      else
        (let t1 = t\<lparr>fileNr := (if 2 < length byteArray then Number (unat (byteArray ! 2)) else NaN)\<rparr>
         in case readIntegerFrom4Bytes byteArray 3 of
              None \<Rightarrow> ([], Threw RangeError t1)
            | Some bs \<Rightarrow>
                (let t2 = t1\<lparr>blockStart := bs\<rparr>
                 in case readIntegerFrom4Bytes byteArray 7 of
                      None \<Rightarrow> ([], Threw RangeError t2)
                    | Some bo \<Rightarrow>
                        (let t3 = t2\<lparr>blockOffset := bo\<rparr>
                         in case readIntegerFrom4Bytes byteArray 11 of
                              None \<Rightarrow> ([], Threw RangeError t3)
                            | Some al \<Rightarrow> ([], Completed (t3\<lparr>articleLength := al\<rparr>))))))"

text \<open>
  \<^verbatim>\<open>resolveRedirect(resolveRedirect(t))\<close>: the second call runs on the title the first one
  handed to its callback.
\<close>

definition resolveRedirect_twice :: "byte list \<Rightarrow> 'f title \<Rightarrow> string list \<times> 'f title completion" where
  "resolveRedirect_twice titleFile t =
     (case resolveRedirect titleFile t of
        (alerts, Threw e t1) \<Rightarrow> (alerts, Threw e t1)
      | (alerts, Completed t1) \<Rightarrow>
          (case resolveRedirect titleFile t1 of (alerts2, r) \<Rightarrow> (alerts @ alerts2, r)))"

text \<open>The little-endian value of the four bytes of a file at an offset, written out.\<close>

definition u32_at :: "byte list \<Rightarrow> nat \<Rightarrow> nat" where
  "u32_at f i = unat (f ! i) + 2 ^ 8 * unat (f ! (i + 1)) + 2 ^ 16 * unat (f ! (i + 2))
                + 2 ^ 24 * unat (f ! (i + 3))"

section \<open>Math image lookup (loadMathImage, findMathDataPosition)\<close>

text \<open>
  Modelled from the spec: \<^verbatim>\<open>util.uint8ArrayToHex\<close> is missing from the sources; the spec
  gives it as \<open>hex(bytes) \<rightarrow> string\<close>. Two lower-case digits per byte.
\<close>

definition hex_digit :: "nat \<Rightarrow> char" where
  "hex_digit n = ''0123456789abcdef'' ! (n mod 16)"

fun uint8ArrayToHex :: "byte list \<Rightarrow> string" where
  "uint8ArrayToHex [] = []"
| "uint8ArrayToHex (v # vs) = hex_digit (unat v div 16) # hex_digit (unat v) # uint8ArrayToHex vs"

text \<open>
  What a lookup ends in: the callback is invoked with the bytes read, or the function
  returns without invoking anything (\<open>NoCallback\<close>), or a handler throws.
\<close>

datatype 'a lookup = Delivered 'a | NoCallback | LookupThrew js_error

text \<open>
  findMathDataPosition. \<open>lo\<close> is always an integer; \<open>hi\<close> starts as \<open>size / 24\<close>, which
  JavaScript does not round, so it is a rational. Each call reads the 24 bytes of entry
  \<open>mid\<close> (fewer at the end of the file) and compares the hex of its first 16 bytes
  with the query as strings.
\<close>

function findMathDataPosition :: "byte list \<Rightarrow> string \<Rightarrow> nat \<Rightarrow> rat \<Rightarrow> (nat \<times> nat) lookup" where
  "findMathDataPosition mathIndexFile hexString lo hi =
     (if hi \<le> of_nat lo then NoCallback
      else
        (let mid = nat \<lfloor>(of_nat lo + hi) / 2\<rfloor>;
             byteArray = blob_slice mathIndexFile (mid * 24) ((mid + 1) * 24);
             hash = uint8ArrayToHex (take 16 byteArray)
         in if hash = hexString then
              (case readIntegerFrom4Bytes byteArray 16 of
                 None \<Rightarrow> LookupThrew RangeError
               | Some pos \<Rightarrow>
                   (case readIntegerFrom4Bytes byteArray (16 + 4) of
                      None \<Rightarrow> LookupThrew RangeError
                    | Some len \<Rightarrow> Delivered (pos, len)))
            else if hexString < hash then findMathDataPosition mathIndexFile hexString lo (of_nat mid)
            else findMathDataPosition mathIndexFile hexString (mid + 1) hi))"
  by pat_completeness auto

termination
proof (relation "measure (\<lambda>(f, h, lo, hi). nat \<lceil>hi - of_nat lo\<rceil>)")
  show "wf (measure (\<lambda>(f :: byte list, h :: string, lo :: nat, hi :: rat). nat \<lceil>hi - of_nat lo\<rceil>))"
    by simp
next
  fix mathIndexFile :: "byte list" and hexString :: string and lo :: nat and hi :: rat
    and mid :: nat
  assume lt: "\<not> hi \<le> of_nat lo" and mid: "mid = nat \<lfloor>(of_nat lo + hi) / 2\<rfloor>"
  have pos: "0 \<le> \<lfloor>(of_nat lo + hi) / 2\<rfloor>"
    using lt by (simp add: zero_le_floor)
  have "of_int \<lfloor>(of_nat lo + hi) / 2\<rfloor> \<le> (of_nat lo + hi) / 2"
    by (rule of_int_floor_le)
  then have "(of_nat mid :: rat) \<le> (of_nat lo + hi) / 2"
    using pos mid by simp
  then have midlt: "(of_nat mid :: rat) < hi"
    using lt by simp
  have "\<lceil>(of_nat mid :: rat) - of_nat lo\<rceil> = int mid - int lo"
    by (metis ceiling_of_int of_int_diff of_int_of_nat_eq)
  moreover have "of_int (int mid - int lo) < hi - of_nat lo"
    using midlt by simp
  then have "int mid - int lo < \<lceil>hi - of_nat lo\<rceil>"
    by (simp add: less_ceiling_iff)
  ultimately have "\<lceil>(of_nat mid :: rat) - of_nat lo\<rceil> < \<lceil>hi - of_nat lo\<rceil>"
    by simp
  moreover have "0 < \<lceil>hi - of_nat lo\<rceil>"
    using lt by (simp add: zero_less_ceiling)
  ultimately show "((mathIndexFile, hexString, lo, of_nat mid), (mathIndexFile, hexString, lo, hi))
      \<in> measure (\<lambda>(f, h, lo, hi). nat \<lceil>hi - of_nat lo\<rceil>)"
    by simp
next
  fix mathIndexFile :: "byte list" and hexString :: string and lo :: nat and hi :: rat
    and mid :: nat
  assume lt: "\<not> hi \<le> of_nat lo" and mid: "mid = nat \<lfloor>(of_nat lo + hi) / 2\<rfloor>"
  have "(of_nat lo :: rat) \<le> (of_nat lo + hi) / 2"
    using lt by simp
  then have "int lo \<le> \<lfloor>(of_nat lo + hi) / 2\<rfloor>"
    by (simp add: le_floor_iff)
  then have "lo \<le> mid"
    using mid by simp
  then have "hi - of_nat (mid + 1) \<le> hi - of_nat lo - 1"
    by simp
  then have "\<lceil>hi - of_nat (mid + 1)\<rceil> \<le> \<lceil>hi - of_nat lo - 1\<rceil>"
    by (rule ceiling_mono)
  then have "\<lceil>hi - of_nat (mid + 1)\<rceil> < \<lceil>hi - of_nat lo\<rceil>"
    by simp
  moreover have "0 < \<lceil>hi - of_nat lo\<rceil>"
    using lt by (simp add: zero_less_ceiling)
  ultimately show "((mathIndexFile, hexString, mid + 1, hi), (mathIndexFile, hexString, lo, hi))
      \<in> measure (\<lambda>(f, h, lo, hi). nat \<lceil>hi - of_nat lo\<rceil>)"
    by simp
qed

declare findMathDataPosition.simps [simp del]

text \<open>The hex string of the hash of entry \<open>k\<close> of the math index.\<close>

definition entry_hash :: "byte list \<Rightarrow> nat \<Rightarrow> string" where
  "entry_hash mathIndexFile k =
     uint8ArrayToHex (take 16 (blob_slice mathIndexFile (k * 24) ((k + 1) * 24)))"

text \<open>
  loadMathImage: the search starts at \<open>lo = 0\<close>, \<open>hi = size / 24\<close>; its callback reads
  \<^verbatim>\<open>mathDataFile.slice(pos, pos + length)\<close> and hands the bytes to the caller's callback.
\<close>

definition loadMathImage :: "byte list \<Rightarrow> byte list \<Rightarrow> string \<Rightarrow> byte list lookup" where
  "loadMathImage mathIndexFile mathDataFile hexString =
     (let entrySize = 16 + 4 + 4;
          lo = 0;
          hi = of_nat (length mathIndexFile) / of_nat entrySize
      in case findMathDataPosition mathIndexFile hexString lo hi of
           Delivered (pos, len) \<Rightarrow> Delivered (blob_slice mathDataFile pos (pos + len))
         | NoCallback \<Rightarrow> NoCallback
         | LookupThrew e \<Rightarrow> LookupThrew e)"

section \<open>Exact title lookup (getTitleByName)\<close>

text \<open>
  \<^verbatim>\<open>normalize_string.normalizeString\<close>, \<^verbatim>\<open>titleIterators.findPrefixOffset\<close> and
  \<^verbatim>\<open>titleIterators.SequentialTitleIterator\<close> are missing from the sources and are
  parameters of getTitleByName. An iterator created at an offset is the finite list of
  the titles that its successive \<^verbatim>\<open>advance()\<close> calls yield before \<^verbatim>\<open>null\<close>.
\<close>

definition getNormalizeFunction :: "(string \<Rightarrow> string) \<Rightarrow> 'a metadata_scheme \<Rightarrow> string \<Rightarrow> string" where
  "getNormalizeFunction normalizeString a =
     (if normalizedTitles a = True then normalizeString else (\<lambda>string. string))"

text \<open>The function \<^verbatim>\<open>check\<close> of getTitleByName, chained on \<^verbatim>\<open>iterator.advance()\<close>; \<open>None\<close> is \<^verbatim>\<open>null\<close>.\<close>

fun check :: "(string \<Rightarrow> string) \<Rightarrow> string \<Rightarrow> 'f title list \<Rightarrow> 'f title option" where
  "check normalizeFn titleName [] = None"
| "check normalizeFn titleName (t # rest) =
     (if normalizeFn (name t) \<noteq> normalizeFn titleName then None
      else if name t = titleName then Some t
      else check normalizeFn titleName rest)"

text \<open>
  getTitleByName: \<^verbatim>\<open>findPrefixOffset(this._titleFile, titleName, normalize)\<close> receives the
  name as the caller gave it, together with the normalize function.
\<close>

definition getTitleByName ::
  "(string \<Rightarrow> string) \<Rightarrow> (string \<Rightarrow> (string \<Rightarrow> string) \<Rightarrow> nat) \<Rightarrow> (nat \<Rightarrow> 'f title list)
   \<Rightarrow> 'a metadata_scheme \<Rightarrow> string \<Rightarrow> 'f title option" where
  "getTitleByName normalizeString findPrefixOffset SequentialTitleIterator a titleName =
     (let normalizeFn = getNormalizeFunction normalizeString a;
          offset = findPrefixOffset titleName normalizeFn
      in check normalizeFn titleName (SequentialTitleIterator offset))"

text \<open>
  Modelled from the spec: \<^verbatim>\<open>titleIterators.findPrefixOffset\<close> and the sequential iterator
  are missing from the sources. The spec gives the title file as a sequence of records
  sorted by normalized name, \<open>findPrefixOffset(prefix)\<close> as "the offset of the first record
  whose normalized name is \<ge> prefix", and the iterator as reading the records from an
  offset on. Here the title file is the list of its records and an offset is a number of
  records.
\<close>

definition spec_findPrefixOffset :: "'f title list \<Rightarrow> string \<Rightarrow> (string \<Rightarrow> string) \<Rightarrow> nat" where
  "spec_findPrefixOffset titleFile p normalizeFn =
     length (takeWhile (\<lambda>t. normalizeFn (name t) < p) titleFile)"

definition spec_SequentialTitleIterator :: "'f title list \<Rightarrow> nat \<Rightarrow> 'f title list" where
  "spec_SequentialTitleIterator titleFile offset = drop offset titleFile"

text \<open>
  The exact lookup in the spec's words: seek to \<open>findPrefixOffset(normalize(name))\<close>,
  go through the records while the normalized name equals \<open>normalize(name)\<close>, return the
  first whose raw name is the query.
\<close>

definition getTitleByName_spec :: "(string \<Rightarrow> string) \<Rightarrow> 'f title list \<Rightarrow> string \<Rightarrow> 'f title option" where
  "getTitleByName_spec normalizeFn titleFile titleName =
     find (\<lambda>t. name t = titleName)
       (takeWhile (\<lambda>t. normalizeFn (name t) = normalizeFn titleName)
          (spec_SequentialTitleIterator titleFile
             (spec_findPrefixOffset titleFile (normalizeFn titleName) normalizeFn)))"

section \<open>Article reader (readArticle, readArticleChunk)\<close>

text \<open>
  \<^verbatim>\<open>s.substring(start, end)\<close> for non-negative integer arguments: both are cut at the
  length, and swapped when \<open>start\<close> is the larger.
\<close>

definition substring :: "'a list \<Rightarrow> nat \<Rightarrow> nat \<Rightarrow> 'a list" where
  "substring s start end =
     (let a = min start (length s); b = min end (length s)
      in take (max a b - min a b) (drop (min a b) s))"

definition CHUNK_SIZE :: nat where
  "CHUNK_SIZE = 131072"

record archive_file =
  file_name :: string
  content :: "byte list"

text \<open>
  The test \<^verbatim>\<open>new RegExp(expectedFileName + "$").test(fileName)\<close>: the expected name is
  letters, digits, an underscore and one dot; the dot stands for any character but a line
  terminator, and the match has to end where the file name ends.
\<close>

definition regex_char :: "char \<Rightarrow> char \<Rightarrow> bool" where
  "regex_char p c = (if p = CHR ''.'' then c \<noteq> newline \<and> c \<noteq> CHR 0x0D else c = p)"

definition regexpEndsWithExpectedFileName :: "string \<Rightarrow> string \<Rightarrow> bool" where
  "regexpEndsWithExpectedFileName expectedFileName fileName =
     (length expectedFileName \<le> length fileName
      \<and> list_all2 regex_char expectedFileName
           (drop (length fileName - length expectedFileName) fileName))"

definition expectedFileName :: "js_number \<Rightarrow> string" where
  "expectedFileName nr =
     ''wikipedia_''
     @ (if less_than_ten nr then ''0'' @ string_of_number nr else string_of_number nr)
     @ ''.dat''"

text \<open>
  The loop over \<^verbatim>\<open>this._dataFiles\<close>: the last matching file wins; an empty slot of the
  array is \<^verbatim>\<open>undefined\<close>, and reading its name throws.
\<close>

fun find_dataFile :: "string \<Rightarrow> archive_file option list \<Rightarrow> archive_file option \<Rightarrow> js_error + archive_file option" where
  "find_dataFile expected [] dataFile = Inr dataFile"
| "find_dataFile expected (None # files) dataFile = Inl TypeError"
| "find_dataFile expected (Some f # files) dataFile =
     find_dataFile expected files
       (if regexpEndsWithExpectedFileName expected (file_name f) then Some f else dataFile)"

text \<open>
  The bzip2 web worker is an external collaborator and a parameter here: it answers each
  request with one message, or with its \<^verbatim>\<open>onerror\<close> event (message, file name and line
  number as texts). \<open>Other\<close> is a message with a command that the \<^verbatim>\<open>switch\<close> has no case
  for. The decompressed text is a string of one character per byte.
\<close>

datatype codec_message = Result string | Recurse | Debug string | CodecError string
  | Other string | WorkerError string string string

text \<open>
  What the article reader lets out: \<^verbatim>\<open>callbackFunction(title, htmlArticle)\<close> and
  \<^verbatim>\<open>callbackFunction(null, message)\<close>, each with the number of the readArticle call whose
  callback it is; an alert; an exception that nothing catches; a logged debug message.
\<close>

datatype ('f, 's) article_effect =
    ArticleCallback nat "'f title" 's
  | ArticleFailure nat string
  | ArticleAlert string
  | ArticleUncaught js_error
  | ArticleLogged string

text \<open>
  The closure of one readArticleChunk call: the call of readArticle it works for, the
  title, the data file and the length to read.
\<close>

record 'f chunk_read =
  read_call :: nat
  read_title :: "'f title"
  read_dataFile :: "byte list"
  readLength :: nat

text \<open>
  The state the article reads share. The bzip2 worker is one object of the module: every
  file read that completes overwrites its \<^verbatim>\<open>onmessage\<close> and \<^verbatim>\<open>onerror\<close> with its own
  closure (\<open>worker_handler\<close>) and posts its bytes (\<open>worker_inbox\<close>, oldest first); the
  worker answers its requests in order, and an answer goes to the handler installed at
  that moment. \<open>file_reads\<close> are the file reads in flight, each with the blob it reads.
\<close>

record ('f, 's) reader_state =
  article_calls :: nat
  file_reads :: "('f chunk_read \<times> byte list) list"
  worker_handler :: "'f chunk_read option"
  worker_inbox :: "byte list list"
  article_effects :: "('f, 's) article_effect list"

definition idle_reader :: "('f, 's) reader_state" where
  "idle_reader = \<lparr>article_calls = 0, file_reads = [], worker_handler = None, worker_inbox = [],
                   article_effects = []\<rparr>"

text \<open>
  The synchronous part of readArticleChunk: it takes the blob
  \<^verbatim>\<open>dataFile.slice(blockStart, blockStart + readLength)\<close> and starts the read.
\<close>

definition readArticleChunk :: "'f chunk_read \<Rightarrow> ('f, 's) reader_state \<Rightarrow> ('f, 's) reader_state" where
  "readArticleChunk c st =
     st\<lparr>file_reads := file_reads st @
          [(c, blob_slice (read_dataFile c) (blockStart (read_title c))
                 (blockStart (read_title c) + readLength c))]\<rparr>"

text \<open>
  The \<^verbatim>\<open>onload\<close> handler of the file read: it installs the two worker handlers of its
  closure and posts the bytes read.
\<close>

definition reader_onload :: "'f chunk_read \<times> byte list \<Rightarrow> ('f, 's) reader_state \<Rightarrow> ('f, 's) reader_state" where
  "reader_onload r st =
     st\<lparr>worker_handler := Some (fst r), worker_inbox := worker_inbox st @ [snd r]\<rparr>"

text \<open>
  The worker handlers of closure \<open>c\<close> on a message. \<open>decodeUtf8\<close> is
  \<^verbatim>\<open>decodeURIComponent(escape(s))\<close>, with \<open>None\<close> for its \<open>URIError\<close>.
\<close>

definition worker_onmessage ::
  "(string \<Rightarrow> 's option) \<Rightarrow> 'f chunk_read \<Rightarrow> codec_message \<Rightarrow> ('f, 's) reader_state
   \<Rightarrow> ('f, 's) reader_state" where
  "worker_onmessage decodeUtf8 c msg st =
     (let t = read_title c in
      case msg of
        Result htmlArticles \<Rightarrow>
          (let htmlArticle = substring htmlArticles (blockOffset t) (blockOffset t + articleLength t)
           in if articleLength t \<le> length htmlArticle then
                (case decodeUtf8 (substring htmlArticle 0 (articleLength t)) of
                   None \<Rightarrow> st\<lparr>article_effects := article_effects st @ [ArticleUncaught URIError]\<rparr>
                 | Some decoded \<Rightarrow>
                     st\<lparr>article_effects := article_effects st @
                          [ArticleCallback (read_call c) t decoded]\<rparr>)
              else readArticleChunk (c\<lparr>readLength := readLength c + CHUNK_SIZE\<rparr>) st)
      | Recurse \<Rightarrow> readArticleChunk (c\<lparr>readLength := readLength c + CHUNK_SIZE\<rparr>) st
      | Debug m \<Rightarrow> st\<lparr>article_effects := article_effects st @ [ArticleLogged m]\<rparr>
      | CodecError m \<Rightarrow>
          (if m = ''No magic number found''
           then st\<lparr>article_effects := article_effects st @ [ArticleFailure (read_call c) ''Oops : this article can not be displayed for now. It's a known bug that is not solved yet. See <a href='https://github.com/mossroy/evopedia-html5/issues/6' target='_blank'>issue #6 on Github</a> for more info'']\<rparr>
           else st\<lparr>article_effects := article_effects st @ [ArticleFailure (read_call c) (''An unexpected error occured during bzip2 decompression. Please report it to us by email or through Github (see About section), with the names of the archive and article, and the following info : message='' @ m)]\<rparr>)
      | Other cmd \<Rightarrow> st
      | WorkerError message filename lineno \<Rightarrow>
          st\<lparr>article_effects := article_effects st @ [ArticleFailure (read_call c) (''An unexpected error occured during bzip2 decompression. Please report it to us by email or through Github (see About section), with the names of the archive and article, and the following info : message='' @ message @ '' filename='' @ filename @ '' line number='' @ lineno)]\<rparr>)"

text \<open>
  readArticle: the call gets the next number; it throws when the loop over the data
  files throws, alerts and throws when no file matches, and else starts the first read, of
  \<open>CHUNK_SIZE\<close> bytes.
\<close>

definition readArticle :: "archive_file option list \<Rightarrow> 'f title \<Rightarrow> ('f, 's) reader_state \<Rightarrow> ('f, 's) reader_state" where
  "readArticle dataFiles t st0 =
     (let st = st0\<lparr>article_calls := article_calls st0 + 1\<rparr> in
      case find_dataFile (expectedFileName (fileNr t)) dataFiles None of
        Inl e \<Rightarrow> st\<lparr>article_effects := article_effects st @ [ArticleUncaught e]\<rparr>
      | Inr None \<Rightarrow>
          st\<lparr>article_effects := article_effects st @
               [ArticleAlert (''Oops : some files seem to be missing in your archive. Please report this problem to us by email (see About section), with the names of the archive and article, and the following info : ''
                              @ ''File number '' @ string_of_number (fileNr t) @ '' not found''),
                ArticleUncaught (Error (''File number '' @ string_of_number (fileNr t) @ '' not found''))]\<rparr>
      | Inr (Some dataFile) \<Rightarrow>
          readArticleChunk \<lparr>read_call = article_calls st0, read_title = t,
                            read_dataFile = content dataFile, readLength = CHUNK_SIZE\<rparr> st)"

text \<open>
  The events of the scheduler: a call of readArticle, the completion of the \<open>k\<close>-th file
  read in flight, and the worker answering its oldest request. File reads are taken to
  succeed.
\<close>

datatype 'f article_event = ReadArticle "'f title" | FileLoaded nat | WorkerAnswers

definition remove_nth :: "nat \<Rightarrow> 'a list \<Rightarrow> 'a list" where
  "remove_nth k xs = take k xs @ drop (Suc k) xs"

fun article_step ::
  "(byte list \<Rightarrow> codec_message) \<Rightarrow> (string \<Rightarrow> 's option) \<Rightarrow> archive_file option list
   \<Rightarrow> ('f, 's) reader_state \<Rightarrow> 'f article_event \<Rightarrow> ('f, 's) reader_state" where
  "article_step bzip2 decodeUtf8 dataFiles st (ReadArticle t) = readArticle dataFiles t st"
| "article_step bzip2 decodeUtf8 dataFiles st (FileLoaded k) =
     (if k < length (file_reads st)
      then reader_onload (file_reads st ! k) (st\<lparr>file_reads := remove_nth k (file_reads st)\<rparr>)
      else st)"
| "article_step bzip2 decodeUtf8 dataFiles st WorkerAnswers =
     (case worker_inbox st of
        [] \<Rightarrow> st
      | request # rest \<Rightarrow>
          (case worker_handler st of
             None \<Rightarrow> st\<lparr>worker_inbox := rest\<rparr>
           | Some c \<Rightarrow> worker_onmessage decodeUtf8 c (bzip2 request) (st\<lparr>worker_inbox := rest\<rparr>)))"

definition article_run ::
  "(byte list \<Rightarrow> codec_message) \<Rightarrow> (string \<Rightarrow> 's option) \<Rightarrow> archive_file option list
   \<Rightarrow> 'f article_event list \<Rightarrow> ('f, 's) reader_state \<Rightarrow> ('f, 's) reader_state" where
  "article_run bzip2 decodeUtf8 dataFiles events st =
     foldl (article_step bzip2 decodeUtf8 dataFiles) st events"

text \<open>
  A worker message after which the handler reads again with a longer range: the worker
  asks for more input, or the decompressed text gives a slice shorter than the article.
\<close>

definition needs_more :: "'f title \<Rightarrow> codec_message \<Rightarrow> bool" where
  "needs_more t msg =
     (case msg of
        Recurse \<Rightarrow> True
      | Result s \<Rightarrow>
          length (substring s (blockOffset t) (blockOffset t + articleLength t)) < articleLength t
      | _ \<Rightarrow> False)"

text \<open>
  \<^verbatim>\<open>decodeURIComponent(escape(s))\<close> on a string of one character per byte: the characters
  are read as UTF-8, and a sequence that is not the UTF-8 encoding of a code point is a
  \<open>URIError\<close>. The result is the list of code points.
\<close>

definition continuation :: "nat \<Rightarrow> bool" where
  "continuation b = (128 \<le> b \<and> b < 192)"

fun utf8_decode :: "nat list \<Rightarrow> nat list option" where
  "utf8_decode [] = Some []"
| "utf8_decode (b0 # bs) =
     (if b0 < 128 then map_option ((#) b0) (utf8_decode bs)
      else if 194 \<le> b0 \<and> b0 < 224 then
        (case bs of
           b1 # rest \<Rightarrow>
             if continuation b1
             then map_option ((#) ((b0 - 192) * 64 + (b1 - 128))) (utf8_decode rest)
             else None
         | _ \<Rightarrow> None)
      else if 224 \<le> b0 \<and> b0 < 240 then
        (case bs of
           b1 # b2 # rest \<Rightarrow>
             (let cp = (b0 - 224) * 4096 + (b1 - 128) * 64 + (b2 - 128) in
              if continuation b1 \<and> continuation b2 \<and> 2048 \<le> cp
                 \<and> \<not> (55296 \<le> cp \<and> cp < 57344)
              then map_option ((#) cp) (utf8_decode rest)
              else None)
         | _ \<Rightarrow> None)
      else if 240 \<le> b0 \<and> b0 < 245 then
        (case bs of
           b1 # b2 # b3 # rest \<Rightarrow>
             (let cp = (b0 - 240) * 262144 + (b1 - 128) * 4096 + (b2 - 128) * 64 + (b3 - 128) in
              if continuation b1 \<and> continuation b2 \<and> continuation b3
                 \<and> 65536 \<le> cp \<and> cp < 1114112
              then map_option ((#) cp) (utf8_decode rest)
              else None)
         | _ \<Rightarrow> None)
      else None)"

definition decodeURIComponent_escape :: "string \<Rightarrow> nat list option" where
  "decodeURIComponent_escape s = utf8_decode (map of_char s)"

section \<open>Test fixtures for the lookups\<close>


definition test_title :: "string \<Rightarrow> nat \<Rightarrow> unit title" where
  "test_title n k = \<lparr>name = n, fileNr = Number 0, blockStart = k, blockOffset = 3, articleLength = 5,
                      titleOffset = None, geolocation = None\<rparr>"



text \<open>
  A codec that asks for more input until it has \<open>n\<close> bytes and then answers with a fixed
  text, and an archive of two data files, given with their directory.
\<close>

definition test_codec :: "nat \<Rightarrow> string \<Rightarrow> byte list \<Rightarrow> codec_message" where
  "test_codec n s bytes = (if length bytes < n then Recurse else Result s)"

definition test_dataFiles :: "archive_file list" where
  "test_dataFiles = [\<lparr>file_name = ''sdcard/wikipedia_00.dat'', content = replicate 131080 66\<rparr>,
                     \<lparr>file_name = ''sdcard/wikipedia_01.dat'', content = [66, 90, 104, 57]\<rparr>]"

section \<open>Spatial search (getTitlesInCoords and its callbacks)\<close>

text \<open>
  A point is \<^verbatim>\<open>geometry.point(x, y)\<close> with \<open>x\<close> the longitude and \<open>y\<close> the latitude.
  geometry.js and the float decoder of util.js are missing from the sources, and their
  numbers are floating point: they are parameters, collected in one record. \<open>'f\<close> is the
  type of coordinates, \<open>'r\<close> the type of rectangles, \<open>'d\<close> the type of distances.
\<close>

type_synonym 'f point = "'f \<times> 'f"

record ('f, 'r, 'd) geometry =
  f32le :: "byte \<Rightarrow> byte \<Rightarrow> byte \<Rightarrow> byte \<Rightarrow> 'f"
  rect_of_points :: "'f point \<Rightarrow> 'f point \<Rightarrow> 'r"
  normalized :: "'r \<Rightarrow> 'r"
  intersect :: "'r \<Rightarrow> 'r \<Rightarrow> bool"
  containsPoint :: "'r \<Rightarrow> 'f point \<Rightarrow> bool"
  center :: "'r \<Rightarrow> 'f point"
  sw :: "'r \<Rightarrow> 'f point"
  ne :: "'r \<Rightarrow> 'f point"
  se :: "'r \<Rightarrow> 'f point"
  nw :: "'r \<Rightarrow> 'f point"
  distance :: "'f point \<Rightarrow> 'f point \<Rightarrow> 'd"
  GLOBE_RECTANGLE :: 'r

text \<open>
  \<^verbatim>\<open>util.readFloatFrom4Bytes(byteArray, startIndex, true)\<close>: the range check of the integer
  decoders, the value from the parameter.
\<close>

definition readFloatFrom4Bytes :: "('f, 'r, 'd) geometry \<Rightarrow> byte list \<Rightarrow> nat \<Rightarrow> 'f option" where
  "readFloatFrom4Bytes g byteArray startIndex =
     (if startIndex + 4 \<le> length byteArray
      then Some (f32le g (byteArray ! startIndex) (byteArray ! (startIndex + 1))
                   (byteArray ! (startIndex + 2)) (byteArray ! (startIndex + 3)))
      else None)"

text \<open>readCoordinates: latitude first, longitude second, the point built as (long, lat).\<close>

definition readCoordinates :: "('f, 'r, 'd) geometry \<Rightarrow> byte list \<Rightarrow> nat \<Rightarrow> 'f point option" where
  "readCoordinates g byteArray startIndex =
     (case readFloatFrom4Bytes g byteArray startIndex of
        None \<Rightarrow> None
      | Some lat \<Rightarrow>
          (case readFloatFrom4Bytes g byteArray (startIndex + 4) of
             None \<Rightarrow> None
           | Some long \<Rightarrow> Some (long, lat)))"

text \<open>
  The state that the callbacks of the search share. One call of getTitlesInCoords
  creates the normalized rectangle, the bound and the array \<^verbatim>\<open>titlePositionsFound\<close>; all
  its callbacks hold them in their closures, here as entry \<open>read_search\<close> of \<open>searches\<close>. An
  element of the array is a Title of which only \<^verbatim>\<open>_titleOffset\<close> and \<^verbatim>\<open>_geolocation\<close> are
  set, here a pair. \<open>reads\<close> are the coordinate file reads in flight, \<open>conversions\<close> the
  title reads in flight (started by readTitlesFromTitleCoordsInTitleFile, which takes
  offset and geolocation from the array when it is called). \<open>outputs\<close> records what
  leaves the module: alerts, invocations of the caller's callback (with the number of
  the search whose callback it is), and exceptions that no handler catches.
\<close>

record ('f, 'r) search =
  targetRect :: 'r
  maxTitles :: int
  titlePositionsFound :: "(nat \<times> 'f point) list"

record 'r coordinate_read =
  read_search :: nat
  coordinateFileIndex :: nat
  coordFilePos :: nat
  thisRect :: 'r
  blob :: "byte list"

record 'f conversion =
  conv_search :: nat
  conv_i :: nat
  conv_titleOffset :: nat
  conv_geolocation :: "'f point"
  titlesFound :: "'f title list"

datatype 'f effect = Alert string | Callback nat "'f title list" | Uncaught js_error

record ('f, 'r) state =
  callbackCounterForTitlesInCoordsSearch :: int
  searches :: "('f, 'r) search list"
  reads :: "'r coordinate_read list"
  conversions :: "'f conversion list"
  outputs :: "'f effect list"

definition initial_state :: "('f, 'r) state" where
  "initial_state = \<lparr>callbackCounterForTitlesInCoordsSearch = 0, searches = [], reads = [],
                     conversions = [], outputs = []\<rparr>"

text \<open>getTitlesStartingAtOffset: the loop \<^verbatim>\<open>addNext\<close> over the titles the iterator yields.\<close>

fun addNext :: "'f title list \<Rightarrow> nat \<Rightarrow> 'f title list \<Rightarrow> 'f title list" where
  "addNext titles titleCount [] = titles"
| "addNext titles titleCount (t # rest) =
     (if titleCount \<le> length titles then titles else addNext (titles @ [t]) titleCount rest)"

definition getTitlesStartingAtOffset :: "(nat \<Rightarrow> 'f title list) \<Rightarrow> nat \<Rightarrow> nat \<Rightarrow> 'f title list" where
  "getTitlesStartingAtOffset SequentialTitleIterator offset titleCount =
     addNext [] titleCount (SequentialTitleIterator offset)"

text \<open>
  The synchronous part of readTitlesFromTitleCoordsInTitleFile: it takes entry \<open>i\<close> of
  the array (reading a field of \<^verbatim>\<open>undefined\<close> throws) and starts the title read.
\<close>

definition readTitlesFromTitleCoordsInTitleFile ::
  "nat \<Rightarrow> nat \<Rightarrow> 'f title list \<Rightarrow> ('f, 'r) state \<Rightarrow> ('f, 'r) state completion" where
  "readTitlesFromTitleCoordsInTitleFile sid i found st =
     (let positions = titlePositionsFound (searches st ! sid) in
      if i < length positions then
        Completed (st\<lparr>conversions := conversions st @
          [\<lparr>conv_search = sid, conv_i = i, conv_titleOffset = fst (positions ! i),
            conv_geolocation = snd (positions ! i), titlesFound = found\<rparr>]\<rparr>)
      else Threw TypeError st)"

text \<open>
  The callback that getTitlesStartingAtOffset invokes with the titles read. The sort is
  \<^verbatim>\<open>titlesFound.sort\<close> with the difference of the distances as comparator; every title in
  \<open>titlesFound\<close> has had its geolocation assigned.
\<close>

definition titleList_callback ::
  "('f, 'r, 'd :: linorder) geometry \<Rightarrow> (nat \<Rightarrow> 'f title list) \<Rightarrow> 'f conversion \<Rightarrow> ('f, 'r) state
   \<Rightarrow> ('f, 'r) state completion" where
  "titleList_callback g SequentialTitleIterator c st =
     (let titleList = getTitlesStartingAtOffset SequentialTitleIterator (conv_titleOffset c) 1 in
      if length titleList = 1 then
        (let t = (titleList ! 0)\<lparr>geolocation := Some (conv_geolocation c)\<rparr>;
             found = titlesFound c @ [t];
             i = conv_i c + 1
         in if i < length (titlePositionsFound (searches st ! conv_search c)) then
              readTitlesFromTitleCoordsInTitleFile (conv_search c) i found st
            else
              (let currentPosition = center g (targetRect (searches st ! conv_search c));
                   sortedTitlesFound =
                     sort_key (\<lambda>a. distance g currentPosition (the (geolocation a))) found
               in Completed (st\<lparr>outputs := outputs st @ [Callback (conv_search c) sortedTitlesFound]\<rparr>)))
      else
        Completed (st\<lparr>outputs := outputs st @
          [Alert (''No title could be found at offset '' @ string_of_nat (conv_titleOffset c))]\<rparr>))"

text \<open>callbackGetTitlesInCoordsInt; in its second branch the array it hands over is empty.\<close>

definition callbackGetTitlesInCoordsInt :: "nat \<Rightarrow> ('f, 'r) state \<Rightarrow> ('f, 'r) state completion" where
  "callbackGetTitlesInCoordsInt sid st =
     (if 0 < length (titlePositionsFound (searches st ! sid)) then
        readTitlesFromTitleCoordsInTitleFile sid 0 [] st
      else Completed (st\<lparr>outputs := outputs st @ [Callback sid []]\<rparr>))"

text \<open>
  The synchronous part of getTitlesInCoordsInt: it takes the blob
  \<^verbatim>\<open>slice(coordFilePos, coordFilePos + 22*65535)\<close> of the coordinate file (an empty slot of
  \<^verbatim>\<open>_coordinateFiles\<close> is \<^verbatim>\<open>undefined\<close>, and the call throws) and starts the read.
\<close>

definition getTitlesInCoordsInt ::
  "byte list option list \<Rightarrow> 'r coordinate_read \<Rightarrow> ('f, 'r) state \<Rightarrow> ('f, 'r) state completion" where
  "getTitlesInCoordsInt coordinateFiles r st =
     (if coordinateFileIndex r < length coordinateFiles then
        (case coordinateFiles ! coordinateFileIndex r of
           None \<Rightarrow> Threw TypeError st
         | Some bytes \<Rightarrow>
             Completed (st\<lparr>reads := reads st @
               [r\<lparr>blob := blob_slice bytes (coordFilePos r) (coordFilePos r + 22 * 65535)\<rparr>]\<rparr>))
      else Threw TypeError st)"

text \<open>
  The four tests of an inner node, in the order SW, SE, NW, NE: each child whose
  rectangle intersects the target increments the counter and starts a read.
\<close>

fun descend ::
  "('f, 'r, 'd) geometry \<Rightarrow> byte list option list \<Rightarrow> 'r coordinate_read \<Rightarrow> 'r \<Rightarrow> ('r \<times> nat) list
   \<Rightarrow> ('f, 'r) state \<Rightarrow> ('f, 'r) state completion" where
  "descend g coordinateFiles r target [] st = Completed st"
| "descend g coordinateFiles r target ((rect, pos) # children) st =
     (if intersect g target rect then
        (case getTitlesInCoordsInt coordinateFiles (r\<lparr>coordFilePos := pos, thisRect := rect\<rparr>)
                (st\<lparr>callbackCounterForTitlesInCoordsSearch :=
                      callbackCounterForTitlesInCoordsSearch st + 1\<rparr>) of
           Threw e st' \<Rightarrow> Threw e st'
         | Completed st' \<Rightarrow> descend g coordinateFiles r target children st')
      else descend g coordinateFiles r target children st)"

text \<open>
  The loop over the entries of a leaf, on the list of the values of \<open>i\<close>. An entry is
  pushed when the target contains its point and
  \<^verbatim>\<open>maxTitles >= 0 && titlePositionsFound.length < maxTitles\<close>.
\<close>

fun leaf_entries ::
  "('f, 'r, 'd) geometry \<Rightarrow> byte list \<Rightarrow> 'r \<Rightarrow> int \<Rightarrow> nat list \<Rightarrow> (nat \<times> 'f point) list
   \<Rightarrow> (nat \<times> 'f point) list completion" where
  "leaf_entries g byteArray target limit [] found = Completed found"
| "leaf_entries g byteArray target limit (i # rest) found =
     (let indexInByteArray = 2 + i * 12 in
      case readCoordinates g byteArray indexInByteArray of
        None \<Rightarrow> Threw RangeError found
      | Some articleCoordinates \<Rightarrow>
          (case readIntegerFrom4Bytes byteArray (indexInByteArray + 8) of
             None \<Rightarrow> Threw RangeError found
           | Some title_pos \<Rightarrow>
               if \<not> containsPoint g target articleCoordinates then
                 leaf_entries g byteArray target limit rest found
               else if 0 \<le> limit \<and> int (length found) < limit then
                 leaf_entries g byteArray target limit rest (found @ [(title_pos, articleCoordinates)])
               else leaf_entries g byteArray target limit rest found))"

text \<open>The last statement of the handler: the search is over when the counter is zero.\<close>

definition finish :: "nat \<Rightarrow> ('f, 'r) state \<Rightarrow> ('f, 'r) state completion" where
  "finish sid st =
     (if callbackCounterForTitlesInCoordsSearch st = 0 then callbackGetTitlesInCoordsInt sid st
      else Completed st)"

text \<open>The inner node branch of the handler.\<close>

definition inner_node ::
  "('f, 'r, 'd) geometry \<Rightarrow> byte list option list \<Rightarrow> 'r coordinate_read \<Rightarrow> 'r \<Rightarrow> byte list
   \<Rightarrow> ('f, 'r) state \<Rightarrow> ('f, 'r) state completion" where
  "inner_node g coordinateFiles r target byteArray st =
     (case readCoordinates g byteArray 2 of
        None \<Rightarrow> Threw RangeError st
      | Some c \<Rightarrow>
     (case readIntegerFrom4Bytes byteArray 10 of
        None \<Rightarrow> Threw RangeError st
      | Some lensw \<Rightarrow>
     (case readIntegerFrom4Bytes byteArray 14 of
        None \<Rightarrow> Threw RangeError st
      | Some lense \<Rightarrow>
     (case readIntegerFrom4Bytes byteArray 18 of
        None \<Rightarrow> Threw RangeError st
      | Some lennw \<Rightarrow>
          (let pos0 = coordFilePos r + 22;
               pos1 = pos0 + lensw;
               pos2 = pos1 + lense;
               pos3 = pos2 + lennw;
               rectSW = normalized g (rect_of_points g (sw g (thisRect r)) c);
               rectNE = normalized g (rect_of_points g (ne g (thisRect r)) c);
               rectSE = normalized g (rect_of_points g (se g (thisRect r)) c);
               rectNW = normalized g (rect_of_points g (nw g (thisRect r)) c)
           in descend g coordinateFiles r target
                [(rectSW, pos0), (rectSE, pos1), (rectNW, pos2), (rectNE, pos3)] st)))))"

text \<open>
  The \<^verbatim>\<open>onload\<close> handler of a coordinate file read \<open>r\<close> (already taken out of \<open>reads\<close>);
  the bytes read are those of its blob.
\<close>

definition onload ::
  "('f, 'r, 'd) geometry \<Rightarrow> byte list option list \<Rightarrow> 'r coordinate_read \<Rightarrow> ('f, 'r) state
   \<Rightarrow> ('f, 'r) state completion" where
  "onload g coordinateFiles r st0 =
     (let st = st0\<lparr>callbackCounterForTitlesInCoordsSearch :=
                    callbackCounterForTitlesInCoordsSearch st0 - 1\<rparr>;
          sid = read_search r;
          s = searches st ! sid
      in if 0 \<le> maxTitles s \<and> maxTitles s \<le> int (length (titlePositionsFound s)) then
           finish sid st
         else
           (let byteArray = blob r
            in case readIntegerFrom2Bytes byteArray 0 of
                 None \<Rightarrow> Threw RangeError st
               | Some selector \<Rightarrow>
                   if selector = 65535 then
                     (case inner_node g coordinateFiles r (targetRect s) byteArray st of
                        Threw e st' \<Rightarrow> Threw e st'
                      | Completed st' \<Rightarrow> finish sid st')
                   else
                     (case leaf_entries g byteArray (targetRect s) (maxTitles s) [0..<selector]
                             (titlePositionsFound s) of
                        Threw e found \<Rightarrow>
                          Threw e (st\<lparr>searches := (searches st)
                                       [sid := s\<lparr>titlePositionsFound := found\<rparr>]\<rparr>)
                      | Completed found \<Rightarrow>
                          finish sid (st\<lparr>searches := (searches st)
                                          [sid := s\<lparr>titlePositionsFound := found\<rparr>]\<rparr>))))"

text \<open>The loop of getTitlesInCoords over the coordinate files, on the list of the values of \<open>i\<close>.\<close>

fun coordinate_files_loop ::
  "('f, 'r, 'd) geometry \<Rightarrow> byte list option list \<Rightarrow> nat \<Rightarrow> nat list \<Rightarrow> ('f, 'r) state
   \<Rightarrow> ('f, 'r) state completion" where
  "coordinate_files_loop g coordinateFiles sid [] st = Completed st"
| "coordinate_files_loop g coordinateFiles sid (i # rest) st =
     (case getTitlesInCoordsInt coordinateFiles
             \<lparr>read_search = sid, coordinateFileIndex = i, coordFilePos = 0,
              thisRect = GLOBE_RECTANGLE g, blob = []\<rparr>
             (st\<lparr>callbackCounterForTitlesInCoordsSearch :=
                   callbackCounterForTitlesInCoordsSearch st + 1\<rparr>) of
        Threw e st' \<Rightarrow> Threw e st'
      | Completed st' \<Rightarrow> coordinate_files_loop g coordinateFiles sid rest st')"

definition getTitlesInCoords ::
  "('f, 'r, 'd) geometry \<Rightarrow> byte list option list \<Rightarrow> 'r \<Rightarrow> int \<Rightarrow> ('f, 'r) state
   \<Rightarrow> ('f, 'r) state completion" where
  "getTitlesInCoords g coordinateFiles rect limit st =
     (if 0 < callbackCounterForTitlesInCoordsSearch st then
        Completed (st\<lparr>outputs := outputs st @
                       [Alert ''The last nearby search did not seem to end well : please try again''],
                     callbackCounterForTitlesInCoordsSearch := 0\<rparr>)
      else
        (let normalizedRectangle = normalized g rect;
             sid = length (searches st);
             st1 = st\<lparr>searches := searches st @
                     [\<lparr>targetRect = normalizedRectangle, maxTitles = limit,
                       titlePositionsFound = []\<rparr>]\<rparr>
         in coordinate_files_loop g coordinateFiles sid [0..<length coordinateFiles] st1))"

text \<open>
  The events of the cooperative scheduler: a call of getTitlesInCoords, the completion
  of the \<open>k\<close>-th coordinate read in flight, the completion of the \<open>k\<close>-th title read in
  flight. Reads complete in any order and are taken to succeed. An exception ends the
  handler that raised it and nothing else.
\<close>

datatype 'r event = Call 'r int | Load nat | TitleLoad nat

fun state_of :: "'a completion \<Rightarrow> 'a" where
  "state_of (Completed st) = st"
| "state_of (Threw e st) = st"

fun settle :: "('f, 'r) state completion \<Rightarrow> ('f, 'r) state" where
  "settle (Completed st) = st"
| "settle (Threw e st) = st\<lparr>outputs := outputs st @ [Uncaught e]\<rparr>"

fun step ::
  "('f, 'r, 'd :: linorder) geometry \<Rightarrow> byte list option list \<Rightarrow> (nat \<Rightarrow> 'f title list)
   \<Rightarrow> ('f, 'r) state \<Rightarrow> 'r event \<Rightarrow> ('f, 'r) state" where
  "step g coordinateFiles iter st (Call rect limit) =
     settle (getTitlesInCoords g coordinateFiles rect limit st)"
| "step g coordinateFiles iter st (Load k) =
     (if k < length (reads st)
      then settle (onload g coordinateFiles (reads st ! k) (st\<lparr>reads := remove_nth k (reads st)\<rparr>))
      else st)"
| "step g coordinateFiles iter st (TitleLoad k) =
     (if k < length (conversions st)
      then settle (titleList_callback g iter (conversions st ! k)
                     (st\<lparr>conversions := remove_nth k (conversions st)\<rparr>))
      else st)"

definition run ::
  "('f, 'r, 'd :: linorder) geometry \<Rightarrow> byte list option list \<Rightarrow> (nat \<Rightarrow> 'f title list)
   \<Rightarrow> 'r event list \<Rightarrow> ('f, 'r) state \<Rightarrow> ('f, 'r) state" where
  "run g coordinateFiles iter events st = foldl (step g coordinateFiles iter) st events"

section \<open>Invariants of the spatial search\<close>

text \<open>A title whose geolocation is set and lies in the rectangle.\<close>

definition located :: "('f, 'r, 'd) geometry \<Rightarrow> 'r \<Rightarrow> 'f title \<Rightarrow> bool" where
  "located g rect t = (case geolocation t of None \<Rightarrow> False | Some p \<Rightarrow> containsPoint g rect p)"

text \<open>
  What holds in every state the scheduler reaches: reads and title reads belong to a
  search that exists; the target rectangle of every search is one of the set \<open>A\<close>; every
  position in a search's array, every geolocation a title read carries and every title
  collected so far lies in the target rectangle of its search; and every list handed to
  a caller's callback is sorted by distance to the center of the target rectangle and
  lies in it.
\<close>

definition search_invariant :: "('f, 'r, 'd :: linorder) geometry \<Rightarrow> 'r set \<Rightarrow> ('f, 'r) state \<Rightarrow> bool" where
  "search_invariant g A st =
     ((\<forall>r \<in> set (reads st). read_search r < length (searches st))
      \<and> (\<forall>c \<in> set (conversions st).
            conv_search c < length (searches st)
            \<and> containsPoint g (targetRect (searches st ! conv_search c)) (conv_geolocation c)
            \<and> (\<forall>t \<in> set (titlesFound c). located g (targetRect (searches st ! conv_search c)) t))
      \<and> (\<forall>s \<in> set (searches st).
            targetRect s \<in> A
            \<and> (\<forall>e \<in> set (titlePositionsFound s). containsPoint g (targetRect s) (snd e)))
      \<and> (\<forall>sid ts. Callback sid ts \<in> set (outputs st) \<longrightarrow>
              sid < length (searches st)
              \<and> sorted (map (\<lambda>a. distance g (center g (targetRect (searches st ! sid)))
                                  (the (geolocation a))) ts)
              \<and> (\<forall>t \<in> set ts. located g (targetRect (searches st ! sid)) t)))"

text \<open>The normalized rectangles of the calls among the events.\<close>

definition calls :: "('f, 'r, 'd) geometry \<Rightarrow> 'r event list \<Rightarrow> 'r set" where
  "calls g events = {normalized g R | R n. Call R n \<in> set events}"

text \<open>Nothing in flight or delivered belongs to search \<open>sid\<close>.\<close>

definition quiet :: "nat \<Rightarrow> ('f, 'r) state \<Rightarrow> bool" where
  "quiet sid st =
     (sid < length (searches st)
      \<and> (\<forall>r \<in> set (reads st). read_search r \<noteq> sid)
      \<and> (\<forall>c \<in> set (conversions st). conv_search c \<noteq> sid)
      \<and> (\<forall>ts. Callback sid ts \<notin> set (outputs st)))"

text \<open>Everything in flight or delivered belongs to a search that exists.\<close>

definition well_formed :: "('f, 'r) state \<Rightarrow> bool" where
  "well_formed st =
     ((\<forall>r \<in> set (reads st). read_search r < length (searches st))
      \<and> (\<forall>c \<in> set (conversions st). conv_search c < length (searches st))
      \<and> (\<forall>sid ts. Callback sid ts \<in> set (outputs st) \<longrightarrow> sid < length (searches st)))"

section \<open>Test fixtures for the spatial search\<close>

text \<open>
  A geometry over the integers after the spec's description of geometry.js: a rectangle
  is (x, y, width, height), containment is inclusive below and exclusive above, the
  distance is the squared planar distance. Its decoder reads the four bytes as a
  little-endian integer (not as an IEEE float).
\<close>

type_synonym test_rect = "int \<times> int \<times> int \<times> int"

definition test_normalized :: "test_rect \<Rightarrow> test_rect" where
  "test_normalized r =
     (case r of (x, y, w, h) \<Rightarrow>
        (if w < 0 then x + w else x, if h < 0 then y + h else y, abs w, abs h))"

definition test_geometry :: "(int, test_rect, int) geometry" where
  "test_geometry =
     \<lparr>f32le = (\<lambda>b0 b1 b2 b3. int (unat b0 + 256 * unat b1 + 65536 * unat b2 + 16777216 * unat b3)),
      rect_of_points = (\<lambda>p q. (fst p, snd p, fst q - fst p, snd q - snd p)),
      normalized = test_normalized,
      intersect = (\<lambda>(x, y, w, h) (x', y', w', h').
                     x < x' + w' \<and> x' < x + w \<and> y < y' + h' \<and> y' < y + h),
      containsPoint = (\<lambda>(x, y, w, h) p. x \<le> fst p \<and> fst p < x + w \<and> y \<le> snd p \<and> snd p < y + h),
      center = (\<lambda>(x, y, w, h). (x + w div 2, y + h div 2)),
      sw = (\<lambda>(x, y, w, h). (x, y)),
      ne = (\<lambda>(x, y, w, h). (x + w, y + h)),
      se = (\<lambda>(x, y, w, h). (x + w, y)),
      nw = (\<lambda>(x, y, w, h). (x, y + h)),
      distance = (\<lambda>p q. (fst p - fst q) * (fst p - fst q) + (snd p - snd q) * (snd p - snd q)),
      GLOBE_RECTANGLE = (- 181, - 91, 362, 182)\<rparr>"

text \<open>
  A coordinate file of one leaf with one entry: latitude 48, longitude 2, title offset
  100; and a title index that has a title at every offset.
\<close>

definition test_leaf :: "byte list" where
  "test_leaf = [1, 0,  48, 0, 0, 0,  2, 0, 0, 0,  100, 0, 0, 0]"

text \<open>
  A leaf with three entries, in this order: (latitude 48, longitude 2, title offset
  100), (latitude 60, longitude 2, title offset 150), (latitude 50, longitude 5, title
  offset 200).
\<close>

definition test_leaf3 :: "byte list" where
  "test_leaf3 = [3, 0,  48, 0, 0, 0,  2, 0, 0, 0,  100, 0, 0, 0,
                        60, 0, 0, 0,  2, 0, 0, 0,  150, 0, 0, 0,
                        50, 0, 0, 0,  5, 0, 0, 0,  200, 0, 0, 0]"

definition test_iterator :: "nat \<Rightarrow> int title list" where
  "test_iterator offset =
     [\<lparr>name = ''Paris'', fileNr = Number 0, blockStart = 0, blockOffset = 0, articleLength = 1,
       titleOffset = Some offset, geolocation = None\<rparr>]"

section \<open>Properties of metadata parsing\<close>

text \<open>The matcher finds exactly the texts that the regular expression describes.\<close>


lemma skip_opt_space_eq:
  "skip_opt_space r = r' \<longleftrightarrow> (r = space # r' \<or> (r = r' \<and> (r = [] \<or> hd r \<noteq> space)))"
  by (cases r) auto

lemma not_token_char: "\<not> token_char c \<longleftrightarrow> c = space \<or> c = newline"
  by (auto simp: token_char_def)

lemma regex_here_key_value:
  "regex_here key s = Some tok \<longleftrightarrow> key_value_at key s 0 tok"
proof
  assume m: "regex_here key s = Some tok"
  let ?n = "Suc (length key)"
  from m have pre: "take ?n s = newline # key"
    by (auto simp: regex_here_def split: if_splits)
  then have s: "s = newline # key @ drop ?n s"
    by (metis append_Cons append_take_drop_id)
  from m pre obtain r where r: "skip_opt_space (drop ?n s) = CHR ''='' # r"
    and tok: "tok = takeWhile token_char (skip_opt_space r)" and ne: "tok \<noteq> []"
    by (auto simp: regex_here_def Let_def split: list.splits if_splits)
  from r obtain sp1 where sp1: "drop ?n s = sp1 @ CHR ''='' # r" "sp1 = [] \<or> sp1 = [space]"
    by (auto simp: skip_opt_space_eq)
  have "r = [] @ skip_opt_space r \<or> r = [space] @ skip_opt_space r"
    by (cases r) auto
  then obtain sp2 where sp2: "r = sp2 @ skip_opt_space r" "sp2 = [] \<or> sp2 = [space]"
    by blast
  let ?post = "dropWhile token_char (skip_opt_space r)"
  have split: "skip_opt_space r = tok @ ?post"
    by (simp add: tok)
  have post: "?post = [] \<or> hd ?post = space \<or> hd ?post = newline"
  proof (cases "?post = []")
    case True
    then show ?thesis by blast
  next
    case False
    then have "\<not> token_char (hd ?post)" by (rule hd_dropWhile)
    then show ?thesis unfolding not_token_char by blast
  qed
  have all: "\<forall>c \<in> set tok. c \<noteq> space \<and> c \<noteq> newline"
    unfolding tok by (auto dest: set_takeWhileD simp: token_char_def)
  have "s = newline # key @ sp1 @ CHR ''='' # sp2 @ tok @ ?post"
    using s sp1(1) sp2(1) split by (metis append_assoc)
  with sp1(2) sp2(2) ne all post show "key_value_at key s 0 tok"
    unfolding key_value_at_def by (intro exI [of _ sp1] exI [of _ sp2] exI [of _ ?post]) simp
next
  assume "key_value_at key s 0 tok"
  then obtain sp1 sp2 post where s: "s = newline # key @ sp1 @ CHR ''='' # sp2 @ tok @ post"
    and sp1: "sp1 = [] \<or> sp1 = [space]" and sp2: "sp2 = [] \<or> sp2 = [space]"
    and ne: "tok \<noteq> []" and all: "\<forall>c \<in> set tok. c \<noteq> space \<and> c \<noteq> newline"
    and post: "post = [] \<or> hd post = space \<or> hd post = newline"
    by (auto simp: key_value_at_def)
  have pre: "take (Suc (length key)) s = newline # key" by (simp add: s)
  have rest: "drop (Suc (length key)) s = sp1 @ CHR ''='' # sp2 @ tok @ post" by (simp add: s)
  have eq: "skip_opt_space (sp1 @ CHR ''='' # sp2 @ tok @ post) = CHR ''='' # sp2 @ tok @ post"
    using sp1 by (auto simp: space_def)
  have hd_tok: "hd tok \<noteq> space" using ne all by (cases tok) auto
  have val: "skip_opt_space (sp2 @ tok @ post) = tok @ post"
    using sp2 ne hd_tok by (cases tok) auto
  have "takeWhile token_char post = []"
    using post by (cases post) (auto simp: token_char_def)
  moreover have "\<forall>c \<in> set tok. token_char c" using all by (simp add: token_char_def)
  ultimately have tw: "takeWhile token_char (tok @ post) = tok"
    by (simp add: takeWhile_append2)
  show "regex_here key s = Some tok"
    unfolding regex_here_def pre rest eq using ne by (simp add: val tw Let_def)
qed

lemma key_value_at_drop: "key_value_at key md i tok \<longleftrightarrow> key_value_at key (drop i md) 0 tok"
  by (simp add: key_value_at_def)

lemma regex_exec_Some:
  "regex_exec key md = Some tok \<longleftrightarrow>
     (\<exists>i. regex_here key (drop i md) = Some tok \<and> (\<forall>j<i. regex_here key (drop j md) = None))"
proof (induction md)
  case Nil
  show ?case by auto
next
  case (Cons c cs)
  show ?case
  proof (cases "regex_here key (c # cs)")
    case (Some t)
    have "(\<exists>i. regex_here key (drop i (c # cs)) = Some tok
              \<and> (\<forall>j<i. regex_here key (drop j (c # cs)) = None)) \<longleftrightarrow> t = tok"
    proof
      assume "\<exists>i. regex_here key (drop i (c # cs)) = Some tok
              \<and> (\<forall>j<i. regex_here key (drop j (c # cs)) = None)"
      then obtain i where i: "regex_here key (drop i (c # cs)) = Some tok"
        and first: "\<forall>j<i. regex_here key (drop j (c # cs)) = None" by blast
      have "i = 0"
      proof (rule ccontr)
        assume "i \<noteq> 0"
        then have "0 < i" by simp
        with first have "regex_here key (drop 0 (c # cs)) = None" by blast
        with Some show False by simp
      qed
      with i Some show "t = tok" by simp
    next
      assume "t = tok"
      with Some have "regex_here key (drop 0 (c # cs)) = Some tok" by simp
      then show "\<exists>i. regex_here key (drop i (c # cs)) = Some tok
              \<and> (\<forall>j<i. regex_here key (drop j (c # cs)) = None)"
        by (intro exI [of _ 0]) simp
    qed
    with Some show ?thesis by simp
  next
    case None
    have "(\<exists>i. regex_here key (drop i (c # cs)) = Some tok
              \<and> (\<forall>j<i. regex_here key (drop j (c # cs)) = None))
          \<longleftrightarrow> (\<exists>i. regex_here key (drop i cs) = Some tok
              \<and> (\<forall>j<i. regex_here key (drop j cs) = None))"
    proof
      assume "\<exists>i. regex_here key (drop i (c # cs)) = Some tok
              \<and> (\<forall>j<i. regex_here key (drop j (c # cs)) = None)"
      then obtain i where i: "regex_here key (drop i (c # cs)) = Some tok"
        and first: "\<forall>j<i. regex_here key (drop j (c # cs)) = None" by blast
      from i None obtain i' where i': "i = Suc i'" by (cases i) auto
      have "\<forall>j<i'. regex_here key (drop j cs) = None"
      proof (intro allI impI)
        fix j assume "j < i'"
        then have "Suc j < i" using i' by simp
        with first have "regex_here key (drop (Suc j) (c # cs)) = None" by blast
        then show "regex_here key (drop j cs) = None" by simp
      qed
      with i i' show "\<exists>i. regex_here key (drop i cs) = Some tok
              \<and> (\<forall>j<i. regex_here key (drop j cs) = None)"
        by (intro exI [of _ i']) simp
    next
      assume "\<exists>i. regex_here key (drop i cs) = Some tok
              \<and> (\<forall>j<i. regex_here key (drop j cs) = None)"
      then obtain i where i: "regex_here key (drop i cs) = Some tok"
        and first: "\<forall>j<i. regex_here key (drop j cs) = None" by blast
      have "\<forall>j<Suc i. regex_here key (drop j (c # cs)) = None"
      proof (intro allI impI)
        fix j assume j: "j < Suc i"
        show "regex_here key (drop j (c # cs)) = None"
        proof (cases j)
          case 0
          with None show ?thesis by simp
        next
          case (Suc j')
          with j first show ?thesis by simp
        qed
      qed
      with i show "\<exists>i. regex_here key (drop i (c # cs)) = Some tok
              \<and> (\<forall>j<i. regex_here key (drop j (c # cs)) = None)"
        by (intro exI [of _ "Suc i"]) simp
    qed
    with None Cons.IH show ?thesis by simp
  qed
qed

lemma regex_here_None: "regex_here key s = None \<longleftrightarrow> (\<forall>t. \<not> key_value_at key s 0 t)"
  using regex_here_key_value [of key s] by (cases "regex_here key s") auto

lemma regex_exec_first_key_value:
  "regex_exec key md = Some tok \<longleftrightarrow> first_key_value key md tok"
  unfolding regex_exec_Some first_key_value_def
  by (simp add: regex_here_key_value regex_here_None key_value_at_drop [symmetric])

lemma regex_exec_None:
  "regex_exec key md = None \<longleftrightarrow> (\<forall>i t. \<not> key_value_at key md i t)"
proof (induction md)
  case Nil
  have "regex_here key [] = None \<longleftrightarrow> (\<forall>i t. \<not> key_value_at key [] i t)"
    unfolding regex_here_None by (simp add: key_value_at_def)
  then show ?case by simp
next
  case (Cons c cs)
  have shift: "key_value_at key (c # cs) (Suc i) t \<longleftrightarrow> key_value_at key cs i t" for i t
    by (simp add: key_value_at_def)
  have all: "(\<forall>i t. \<not> key_value_at key (c # cs) i t)
             \<longleftrightarrow> (\<forall>t. \<not> key_value_at key (c # cs) 0 t) \<and> (\<forall>i t. \<not> key_value_at key cs i t)"
    by (metis shift not0_implies_Suc)
  show ?case
    using Cons.IH regex_here_None [of key "c # cs"] all
    by (cases "regex_here key (c # cs)") auto
qed

lemma readMetadataFile_two_spaces:
  "readMetadataFile
     ''\<newline>language  = en\<newline>date = 2014-06-01\<newline>normalized_titles = 0\<newline>''
     \<lparr>language = None, date = None, normalizedTitles = True\<rparr>
   = Threw TypeError \<lparr>language = None, date = None, normalizedTitles = True\<rparr>"
  by (simp add: readMetadataFile_def regex_here_def Let_def newline_def space_def token_char_def)

text \<open>
  C3, as stated, fails on the scenario text: the text starts with \<open>language\<close>, and the
  regular expression needs a newline before the key, so \<^verbatim>\<open>exec\<close> returns \<^verbatim>\<open>null\<close>, indexing
  it throws, and no field is set.
\<close>

theorem readMetadataFile_scenario_counterexample:
  "readMetadataFile
     ''language = en\<newline>date = 2014-06-01\<newline>normalized_titles = 0\<newline>''
     \<lparr>language = None, date = None, normalizedTitles = True\<rparr>
   = Threw TypeError \<lparr>language = None, date = None, normalizedTitles = True\<rparr>"
  by (simp add: readMetadataFile_def regex_here_def Let_def newline_def space_def token_char_def)

text \<open>
  C3, amended: a key has a value in the text where a newline is followed by the key, at
  most one space, an equals sign, at most one space and a non-empty token (characters
  other than space and newline, up to the next space or newline or the end of the text);
  the value is the token of the first such place. When language and date have values,
  parsing sets them, and sets normalizedTitles to false when the value of
  normalized_titles is \<open>0\<close> and to true for any other value and when it has none. When
  language has no value (as in the scenario text, where no newline precedes the key),
  parsing throws and sets nothing.
\<close>

theorem readMetadataFile_fields:
  "(first_key_value ''language'' md l \<and> first_key_value ''date'' md d \<longrightarrow>
      readMetadataFile md a =
        Completed (a\<lparr>language := Some l, date := Some d,
                     normalizedTitles := (\<not> first_key_value ''normalized_titles'' md ''0'')\<rparr>))
   \<and> ((\<forall>i t. \<not> key_value_at ''language'' md i t) \<longrightarrow> readMetadataFile md a = Threw TypeError a)"
  unfolding regex_exec_first_key_value [symmetric] regex_exec_None [symmetric]
  by (simp add: readMetadataFile_def Let_def split: option.split)

theorem readMetadataFile_fields_witness:
  "first_key_value ''language''
     ''\<newline>language = en\<newline>date = 2014-06-01\<newline>normalized_titles = 0\<newline>'' ''en''
   \<and> first_key_value ''date''
     ''\<newline>language = en\<newline>date = 2014-06-01\<newline>normalized_titles = 0\<newline>'' ''2014-06-01''
   \<and> readMetadataFile
     ''\<newline>language = en\<newline>date = 2014-06-01\<newline>normalized_titles = 0\<newline>''
     \<lparr>language = None, date = None, normalizedTitles = True\<rparr>
     = Completed \<lparr>language = Some ''en'', date = Some ''2014-06-01'', normalizedTitles = False\<rparr>
   \<and> (\<forall>i t. \<not> key_value_at ''language''
         ''language = en\<newline>date = 2014-06-01\<newline>normalized_titles = 0\<newline>'' i t)
   \<and> readMetadataFile
     ''language = en\<newline>date = 2014-06-01\<newline>normalized_titles = 0\<newline>''
     \<lparr>language = None, date = None, normalizedTitles = True\<rparr>
     = Threw TypeError \<lparr>language = None, date = None, normalizedTitles = True\<rparr>"
proof -
  let ?md = "''\<newline>language = en\<newline>date = 2014-06-01\<newline>normalized_titles = 0\<newline>''"
  let ?short = "''language = en\<newline>date = 2014-06-01\<newline>normalized_titles = 0\<newline>''"
  let ?a = "\<lparr>language = None, date = None, normalizedTitles = True\<rparr>"
  have "regex_exec ''language'' ?md = Some ''en''"
    by (simp add: regex_here_def Let_def newline_def space_def token_char_def)
  then have l: "first_key_value ''language'' ?md ''en''"
    by (simp only: regex_exec_first_key_value)
  have "regex_exec ''date'' ?md = Some ''2014-06-01''"
    by (simp add: regex_here_def Let_def newline_def space_def token_char_def)
  then have d: "first_key_value ''date'' ?md ''2014-06-01''"
    by (simp only: regex_exec_first_key_value)
  have "regex_exec ''normalized_titles'' ?md = Some ''0''"
    by (simp add: regex_here_def Let_def newline_def space_def token_char_def)
  then have n: "first_key_value ''normalized_titles'' ?md ''0''"
    by (simp only: regex_exec_first_key_value)
  have "regex_exec ''language'' ?short = None"
    by (simp add: regex_here_def Let_def newline_def space_def token_char_def)
  then have none: "\<forall>i t. \<not> key_value_at ''language'' ?short i t"
    by (rule iffD1 [OF regex_exec_None])
  from readMetadataFile_fields [of ?md "''en''" "''2014-06-01''" ?a] l d n
  have ok: "readMetadataFile ?md ?a
            = Completed \<lparr>language = Some ''en'', date = Some ''2014-06-01'', normalizedTitles = False\<rparr>"
    by simp
  from readMetadataFile_fields [of ?short "''en''" "''2014-06-01''" ?a] none
  have thrown: "readMetadataFile ?short ?a = Threw TypeError ?a"
    by blast
  from l d ok none thrown show ?thesis by blast
qed

section \<open>Properties of redirect resolution\<close>

lemma blob_slice_nth:
  "i < e - s \<Longrightarrow> s + i < length f \<Longrightarrow> blob_slice f s e ! i = f ! (s + i)"
  by (simp add: blob_slice_def)

lemma blob_slice_length: "length (blob_slice f s e) = min (e - s) (length f - s)"
  by (simp add: blob_slice_def)

lemma readIntegerFrom4Bytes_blob_slice:
  assumes "s + i + 4 \<le> length f" and "i + 4 \<le> e - s"
  shows "readIntegerFrom4Bytes (blob_slice f s e) i = Some (u32_at f (s + i))"
proof -
  have len: "i + 4 \<le> length (blob_slice f s e)"
    using assms by (simp add: blob_slice_length)
  have n: "\<And>k. k < 4 \<Longrightarrow> blob_slice f s e ! (i + k) = f ! (s + i + k)"
    using assms by (simp add: blob_slice_nth add.assoc)
  from n [of 0] n [of 1] n [of 2] n [of 3] len show ?thesis
    by (simp add: readIntegerFrom4Bytes_def u32_at_def)
qed

lemma resolveRedirect_in_range:
  assumes "blockStart t + 15 \<le> length titleFile"
  shows "resolveRedirect titleFile t =
           ([], Completed (t\<lparr>fileNr := Number (unat (titleFile ! (blockStart t + 2))),
                              blockStart := u32_at titleFile (blockStart t + 3),
                              blockOffset := u32_at titleFile (blockStart t + 7),
                              articleLength := u32_at titleFile (blockStart t + 11)\<rparr>))"
proof -
  let ?b = "blockStart t"
  let ?a = "blob_slice titleFile ?b (?b + 16)"
  have len: "15 \<le> length ?a"
    using assms by (simp add: blob_slice_length)
  have b2: "?a ! 2 = titleFile ! (?b + 2)"
    using assms by (simp add: blob_slice_nth)
  have r3: "readIntegerFrom4Bytes ?a 3 = Some (u32_at titleFile (?b + 3))"
    using assms by (simp add: readIntegerFrom4Bytes_blob_slice)
  have r7: "readIntegerFrom4Bytes ?a 7 = Some (u32_at titleFile (?b + 7))"
    using assms by (simp add: readIntegerFrom4Bytes_blob_slice)
  have r11: "readIntegerFrom4Bytes ?a 11 = Some (u32_at titleFile (?b + 11))"
    using assms by (simp add: readIntegerFrom4Bytes_blob_slice)
  have ne: "length ?a \<noteq> 0" "2 < length ?a"
    using len by auto
  show ?thesis
    unfolding resolveRedirect_def Let_def using ne b2 r3 r7 r11
    by (simp del: length_0_conv)
qed

lemma resolveRedirect_empty_read:
  assumes "length titleFile \<le> blockStart t"
  shows "resolveRedirect titleFile t =
           ([''Oops : there seems to be something wrong in your archive. Please report it to us by email or through Github (see About section), with the names of the archive and article and the following info : ''
             @ ''Unable to find redirected article for title '' @ name t @ '' : offset ''
             @ string_of_nat (blockStart t) @ '' not found in title file''],
            Threw (Error (''Unable to find redirected article for title '' @ name t @ '' : offset ''
                          @ string_of_nat (blockStart t) @ '' not found in title file'')) t)"
  using assms by (simp add: resolveRedirect_def blob_slice_def)

text \<open>
  A read of 12 bytes: the decoder of articleLength fails after three fields have been
  rewritten, and the title is left with them.
\<close>

lemma resolveRedirect_short_read:
  "resolveRedirect [0, 0, 3, 232, 3, 0, 0, 42, 0, 0, 0, 7]
     \<lparr>name = ''A'', fileNr = Number 255, blockStart = 0, blockOffset = 0, articleLength = 9,
      titleOffset = None, geolocation = (None :: (int \<times> int) option)\<rparr>
   = ([], Threw RangeError
            \<lparr>name = ''A'', fileNr = Number 3, blockStart = 1000, blockOffset = 42,
             articleLength = 9, titleOffset = None, geolocation = None\<rparr>)"
  by (simp add: resolveRedirect_def blob_slice_def readIntegerFrom4Bytes_def)

text \<open>
  C6, as stated for every title, fails where the read at \<open>blockStart\<close> is empty: on an
  empty title file the handler alerts and throws, the callback is not invoked and no
  field is rewritten.
\<close>

theorem resolveRedirect_empty_counterexample:
  "resolveRedirect []
     \<lparr>name = ''A'', fileNr = Number 255, blockStart = 200, blockOffset = 0, articleLength = 0,
      titleOffset = None, geolocation = (None :: (int \<times> int) option)\<rparr>
   = ([''Oops : there seems to be something wrong in your archive. Please report it to us by email or through Github (see About section), with the names of the archive and article and the following info : Unable to find redirected article for title A : offset 200 not found in title file''],
      Threw (Error ''Unable to find redirected article for title A : offset 200 not found in title file'')
        \<lparr>name = ''A'', fileNr = Number 255, blockStart = 200, blockOffset = 0, articleLength = 0,
         titleOffset = None, geolocation = None\<rparr>)"
  by (simp add: resolveRedirect_def blob_slice_def string_of_nat.simps)

text \<open>
  C6, amended: for every title whose \<open>blockStart\<close> leaves at least 15 bytes in the title
  file, resolveRedirect raises no alert and hands the callback the same title with
  exactly four fields rewritten: fileNr from byte 2 of the record, blockStart, blockOffset
  and articleLength from the little-endian 32-bit values at bytes 3, 7 and 11; name,
  titleOffset and geolocation keep their values. When the read at \<open>blockStart\<close> is
  empty, it raises one alert and throws, does not invoke the callback, and leaves every
  field of the title as it was.
\<close>

theorem resolveRedirect_rewrites_four_fields:
  "(blockStart t + 15 \<le> length titleFile \<longrightarrow>
      (\<exists>t'. resolveRedirect titleFile t = ([], Completed t')
           \<and> fileNr t' = Number (unat (titleFile ! (blockStart t + 2)))
           \<and> blockStart t' = u32_at titleFile (blockStart t + 3)
           \<and> blockOffset t' = u32_at titleFile (blockStart t + 7)
           \<and> articleLength t' = u32_at titleFile (blockStart t + 11)
           \<and> name t' = name t \<and> titleOffset t' = titleOffset t
           \<and> geolocation t' = geolocation t \<and> title.more t' = title.more t))
   \<and> (length titleFile \<le> blockStart t \<longrightarrow>
        resolveRedirect titleFile t =
          ([''Oops : there seems to be something wrong in your archive. Please report it to us by email or through Github (see About section), with the names of the archive and article and the following info : ''
            @ ''Unable to find redirected article for title '' @ name t @ '' : offset ''
            @ string_of_nat (blockStart t) @ '' not found in title file''],
           Threw (Error (''Unable to find redirected article for title '' @ name t @ '' : offset ''
                         @ string_of_nat (blockStart t) @ '' not found in title file'')) t))"
  using resolveRedirect_in_range [of t titleFile] resolveRedirect_empty_read [of titleFile t]
  by simp

theorem resolveRedirect_rewrites_four_fields_witness:
  "resolveRedirect
     (replicate 200 0 @ [0, 0, 3, 232, 3, 0, 0, 42, 0, 0, 0, 7, 0, 0, 0, 10])
     \<lparr>name = ''A'', fileNr = Number 255, blockStart = 200, blockOffset = 0, articleLength = 0,
      titleOffset = Some 17, geolocation = (None :: (int \<times> int) option)\<rparr>
   = ([], Completed \<lparr>name = ''A'', fileNr = Number 3, blockStart = 1000, blockOffset = 42,
                     articleLength = 7, titleOffset = Some 17, geolocation = None\<rparr>)
   \<and> snd (resolveRedirect (replicate 200 0)
        \<lparr>name = ''A'', fileNr = Number 255, blockStart = 200, blockOffset = 0, articleLength = 0,
         titleOffset = Some 17, geolocation = (None :: (int \<times> int) option)\<rparr>)
     = Threw (Error ''Unable to find redirected article for title A : offset 200 not found in title file'')
         \<lparr>name = ''A'', fileNr = Number 255, blockStart = 200, blockOffset = 0, articleLength = 0,
          titleOffset = Some 17, geolocation = None\<rparr>"
proof -
  let ?f = "replicate 200 (0::byte) @ [0, 0, 3, 232, 3, 0, 0, 42, 0, 0, 0, 7, 0, 0, 0, 10]"
  let ?t = "\<lparr>name = ''A'', fileNr = Number 255, blockStart = 200, blockOffset = 0, articleLength = 0,
             titleOffset = Some 17, geolocation = (None :: (int \<times> int) option)\<rparr>"
  have h: "blockStart ?t + 15 \<le> length ?f" by simp
  obtain t' where r: "resolveRedirect ?f ?t = ([], Completed t')"
    and f: "fileNr t' = Number (unat (?f ! (blockStart ?t + 2)))"
    and s: "blockStart t' = u32_at ?f (blockStart ?t + 3)"
    and o: "blockOffset t' = u32_at ?f (blockStart ?t + 7)"
    and l: "articleLength t' = u32_at ?f (blockStart ?t + 11)"
    and n: "name t' = name ?t" and p: "titleOffset t' = titleOffset ?t"
    and g: "geolocation t' = geolocation ?t" and m: "title.more t' = title.more ?t"
    using resolveRedirect_rewrites_four_fields [of ?t ?f] h by blast
  have "t' = \<lparr>name = ''A'', fileNr = Number 3, blockStart = 1000, blockOffset = 42,
               articleLength = 7, titleOffset = Some 17, geolocation = None\<rparr>"
    using f s o l n p g m by (cases t') (simp add: u32_at_def nth_append)
  with r have first: "resolveRedirect ?f ?t
      = ([], Completed \<lparr>name = ''A'', fileNr = Number 3, blockStart = 1000, blockOffset = 42,
                        articleLength = 7, titleOffset = Some 17, geolocation = None\<rparr>)"
    by simp
  have e: "length (replicate 200 (0::byte)) \<le> blockStart ?t" by simp
  from resolveRedirect_rewrites_four_fields [of ?t "replicate 200 (0::byte)"] e
  have "snd (resolveRedirect (replicate 200 0) ?t)
        = Threw (Error (''Unable to find redirected article for title '' @ name ?t @ '' : offset ''
                         @ string_of_nat (blockStart ?t) @ '' not found in title file'')) ?t"
    by simp
  then have second: "snd (resolveRedirect (replicate 200 0) ?t)
        = Threw (Error ''Unable to find redirected article for title A : offset 200 not found in title file'') ?t"
    by (simp add: string_of_nat.simps)
  from first second show ?thesis by simp
qed

text \<open>
  C7, as stated, fails: resolveRedirect makes no redirect check. A title that points
  into data shard 1 is rewritten from whatever the title file holds at its \<open>blockStart\<close>,
  and the second call does not restore it.
\<close>

theorem resolveRedirect_twice_counterexample:
  "resolveRedirect_twice [0, 0, 3, 0, 0, 0, 0, 42, 0, 0, 0, 7, 0, 0, 0, 10]
     \<lparr>name = ''A'', fileNr = Number 1, blockStart = 0, blockOffset = 5, articleLength = 9,
      titleOffset = None, geolocation = (None :: (int \<times> int) option)\<rparr>
   = ([], Completed \<lparr>name = ''A'', fileNr = Number 3, blockStart = 0, blockOffset = 42,
                     articleLength = 7, titleOffset = None, geolocation = None\<rparr>)"
  by (simp add: resolveRedirect_twice_def resolveRedirect_def blob_slice_def
      readIntegerFrom4Bytes_def)

text \<open>
  C7, amended: for every title, redirect or not, whose two reads stay inside the title
  file, resolveRedirect applied twice sets the four fields to the record stored at the
  blockStart that the first call decoded; the original values survive exactly when that
  record encodes them.
\<close>

theorem resolveRedirect_twice_fields:
  assumes "blockStart t + 15 \<le> length titleFile"
    and "u32_at titleFile (blockStart t + 3) + 15 \<le> length titleFile"
  shows "resolveRedirect_twice titleFile t =
           ([], Completed
              (t\<lparr>fileNr := Number (unat (titleFile ! (u32_at titleFile (blockStart t + 3) + 2))),
                 blockStart := u32_at titleFile (u32_at titleFile (blockStart t + 3) + 3),
                 blockOffset := u32_at titleFile (u32_at titleFile (blockStart t + 3) + 7),
                 articleLength := u32_at titleFile (u32_at titleFile (blockStart t + 3) + 11)\<rparr>))
         \<and> (resolveRedirect_twice titleFile t = ([], Completed t) \<longleftrightarrow>
              Number (unat (titleFile ! (u32_at titleFile (blockStart t + 3) + 2))) = fileNr t
              \<and> u32_at titleFile (u32_at titleFile (blockStart t + 3) + 3) = blockStart t
              \<and> u32_at titleFile (u32_at titleFile (blockStart t + 3) + 7) = blockOffset t
              \<and> u32_at titleFile (u32_at titleFile (blockStart t + 3) + 11) = articleLength t)"
proof -
  let ?b1 = "u32_at titleFile (blockStart t + 3)"
  let ?t1 = "t\<lparr>fileNr := Number (unat (titleFile ! (blockStart t + 2))), blockStart := ?b1,
               blockOffset := u32_at titleFile (blockStart t + 7),
               articleLength := u32_at titleFile (blockStart t + 11)\<rparr>"
  have first: "resolveRedirect titleFile t = ([], Completed ?t1)"
    by (rule resolveRedirect_in_range [OF assms(1)])
  have "blockStart ?t1 + 15 \<le> length titleFile"
    using assms(2) by simp
  from resolveRedirect_in_range [OF this]
  have "resolveRedirect titleFile ?t1 =
      ([], Completed (?t1\<lparr>fileNr := Number (unat (titleFile ! (blockStart ?t1 + 2))),
               blockStart := u32_at titleFile (blockStart ?t1 + 3),
               blockOffset := u32_at titleFile (blockStart ?t1 + 7),
               articleLength := u32_at titleFile (blockStart ?t1 + 11)\<rparr>))" .
  also have "?t1\<lparr>fileNr := Number (unat (titleFile ! (blockStart ?t1 + 2))),
               blockStart := u32_at titleFile (blockStart ?t1 + 3),
               blockOffset := u32_at titleFile (blockStart ?t1 + 7),
               articleLength := u32_at titleFile (blockStart ?t1 + 11)\<rparr> =
      t\<lparr>fileNr := Number (unat (titleFile ! (?b1 + 2))), blockStart := u32_at titleFile (?b1 + 3),
             blockOffset := u32_at titleFile (?b1 + 7),
             articleLength := u32_at titleFile (?b1 + 11)\<rparr>"
    by simp
  finally have second: "resolveRedirect titleFile ?t1 =
      ([], Completed (t\<lparr>fileNr := Number (unat (titleFile ! (?b1 + 2))),
             blockStart := u32_at titleFile (?b1 + 3),
             blockOffset := u32_at titleFile (?b1 + 7),
             articleLength := u32_at titleFile (?b1 + 11)\<rparr>))" .
  have twice: "resolveRedirect_twice titleFile t =
      ([], Completed (t\<lparr>fileNr := Number (unat (titleFile ! (?b1 + 2))),
             blockStart := u32_at titleFile (?b1 + 3),
             blockOffset := u32_at titleFile (?b1 + 7),
             articleLength := u32_at titleFile (?b1 + 11)\<rparr>))"
    unfolding resolveRedirect_twice_def first prod.case completion.case second by simp
  show ?thesis
    unfolding twice by (cases t) auto
qed

theorem resolveRedirect_twice_fields_witness:
  "resolveRedirect_twice
     [0, 0, 3, 16, 0, 0, 0, 42, 0, 0, 0, 7, 0, 0, 0, 10,
      0, 0, 4, 0, 0, 0, 0, 1, 0, 0, 0, 2, 0, 0, 0, 10]
     \<lparr>name = ''A'', fileNr = Number 1, blockStart = 0, blockOffset = 5, articleLength = 9,
      titleOffset = None, geolocation = (None :: (int \<times> int) option)\<rparr>
   = ([], Completed \<lparr>name = ''A'', fileNr = Number 4, blockStart = 0, blockOffset = 1,
                     articleLength = 2, titleOffset = None, geolocation = None\<rparr>)"
proof -
  let ?f = "[0, 0, 3, 16, 0, 0, 0, 42, 0, 0, 0, 7, 0, 0, 0, 10,
             0, 0, 4, 0, 0, 0, 0, 1, 0, 0, 0, 2, 0, 0, 0, 10] :: byte list"
  let ?t = "\<lparr>name = ''A'', fileNr = Number 1, blockStart = 0, blockOffset = 5, articleLength = 9,
             titleOffset = None, geolocation = (None :: (int \<times> int) option)\<rparr>"
  have h1: "blockStart ?t + 15 \<le> length ?f" by simp
  have h2: "u32_at ?f (blockStart ?t + 3) + 15 \<le> length ?f" by (simp add: u32_at_def)
  from resolveRedirect_twice_fields [OF h1 h2] show ?thesis
    by (simp add: u32_at_def)
qed

section \<open>Properties of the math image lookup\<close>

lemma findMathDataPosition_miss:
  assumes "\<And>mid. uint8ArrayToHex (take 16 (blob_slice mathIndexFile (mid * 24) ((mid + 1) * 24)))
             \<noteq> hexString"
  shows "findMathDataPosition mathIndexFile hexString lo hi = NoCallback"
  using assms
proof (induction mathIndexFile hexString lo hi rule: findMathDataPosition.induct)
  case (1 mathIndexFile hexString lo hi)
  show ?case
  proof (cases "hi \<le> of_nat lo")
    case True
    then show ?thesis by (simp add: findMathDataPosition.simps)
  next
    case False
    let ?mid = "nat \<lfloor>(of_nat lo + hi) / 2\<rfloor>"
    let ?hash = "uint8ArrayToHex (take 16 (blob_slice mathIndexFile (?mid * 24) ((?mid + 1) * 24)))"
    have ne: "?hash \<noteq> hexString" by (rule "1.prems")
    show ?thesis
    proof (cases "hexString < ?hash")
      case True
      with False ne "1.IH"(1) [OF False refl refl refl _ True] "1.prems" show ?thesis
        by (subst findMathDataPosition.simps) (simp add: Let_def)
    next
      case nlt: False
      with False ne "1.IH"(2) [OF False refl refl refl _ nlt] "1.prems" show ?thesis
        by (subst findMathDataPosition.simps) (simp add: Let_def)
    qed
  qed
qed

lemma loadMathImage_miss:
  assumes "\<And>mid. uint8ArrayToHex (take 16 (blob_slice mathIndexFile (mid * 24) ((mid + 1) * 24)))
             \<noteq> hexString"
  shows "loadMathImage mathIndexFile mathDataFile hexString = NoCallback"
  by (simp add: loadMathImage_def findMathDataPosition_miss [OF assms])

lemma loadMathImage_delivers_slice:
  assumes "loadMathImage mathIndexFile mathDataFile hexString = Delivered bytes"
  shows "\<exists>pos len. findMathDataPosition mathIndexFile hexString 0 (of_nat (length mathIndexFile) / 24)
                       = Delivered (pos, len)
                   \<and> bytes = blob_slice mathDataFile pos (pos + len)"
  using assms by (auto simp: loadMathImage_def split: lookup.splits)

lemma mid_bounds:
  fixes lo :: nat and hi :: rat
  assumes "\<not> hi \<le> of_nat lo"
  shows "lo \<le> nat \<lfloor>(of_nat lo + hi) / 2\<rfloor>" and "of_nat (nat \<lfloor>(of_nat lo + hi) / 2\<rfloor>) < hi"
proof -
  have "(of_nat lo :: rat) \<le> (of_nat lo + hi) / 2"
    using assms by simp
  then have le: "int lo \<le> \<lfloor>(of_nat lo + hi) / 2\<rfloor>"
    by (simp add: le_floor_iff)
  then show "lo \<le> nat \<lfloor>(of_nat lo + hi) / 2\<rfloor>" by simp
  have "of_int \<lfloor>(of_nat lo + hi) / 2\<rfloor> \<le> (of_nat lo + hi) / 2"
    by (rule of_int_floor_le)
  moreover have "0 \<le> \<lfloor>(of_nat lo + hi) / 2\<rfloor>"
    by (rule order_trans [OF _ le]) simp
  ultimately have "(of_nat (nat \<lfloor>(of_nat lo + hi) / 2\<rfloor>) :: rat) \<le> (of_nat lo + hi) / 2"
    by simp
  then show "of_nat (nat \<lfloor>(of_nat lo + hi) / 2\<rfloor>) < hi"
    using assms by simp
qed

lemma findMathDataPosition_found:
  assumes len: "length mathIndexFile = 24 * n"
    and srt: "\<And>i k. i < k \<Longrightarrow> k < n \<Longrightarrow> entry_hash mathIndexFile i < entry_hash mathIndexFile k"
    and j: "j < n" "hexString = entry_hash mathIndexFile j"
    and range: "lo \<le> j" "of_nat j < hi" "hi \<le> of_nat n"
  shows "findMathDataPosition mathIndexFile hexString lo hi
           = Delivered (u32_at mathIndexFile (j * 24 + 16), u32_at mathIndexFile (j * 24 + 20))"
  using assms
proof (induction mathIndexFile hexString lo hi rule: findMathDataPosition.induct)
  case (1 mathIndexFile hexString lo hi)
  let ?mid = "nat \<lfloor>(of_nat lo + hi) / 2\<rfloor>"
  let ?byteArray = "blob_slice mathIndexFile (?mid * 24) ((?mid + 1) * 24)"
  have open_range: "\<not> hi \<le> of_nat lo"
    using "1.prems"(5,6) by (metis less_le_not_le of_nat_le_iff order_trans linorder_le_cases)
  note mb = mid_bounds [OF open_range]
  have "(of_nat ?mid :: rat) < of_nat n"
    using mb(2) "1.prems"(7) by simp
  then have midn: "?mid < n" by simp
  have hash: "uint8ArrayToHex (take 16 ?byteArray) = entry_hash mathIndexFile ?mid"
    by (simp add: entry_hash_def)
  have cmp: "(entry_hash mathIndexFile ?mid = hexString \<longleftrightarrow> ?mid = j)
             \<and> (hexString < entry_hash mathIndexFile ?mid \<longleftrightarrow> j < ?mid)"
  proof -
    consider "?mid < j" | "?mid = j" | "j < ?mid" by arith
    then show ?thesis
    proof cases
      case 1
      with "1.prems"(2) [of ?mid j] "1.prems"(3,4) show ?thesis by auto
    next
      case 2
      with "1.prems"(4) show ?thesis by auto
    next
      case 3
      with "1.prems"(2) [of j ?mid] midn "1.prems"(4) show ?thesis by auto
    qed
  qed
  show ?case
  proof (cases "?mid = j")
    case True
    have r16: "readIntegerFrom4Bytes ?byteArray 16 = Some (u32_at mathIndexFile (?mid * 24 + 16))"
      using midn "1.prems"(1) by (intro readIntegerFrom4Bytes_blob_slice) simp_all
    have r20: "readIntegerFrom4Bytes ?byteArray (16 + 4) = Some (u32_at mathIndexFile (?mid * 24 + 20))"
      using midn "1.prems"(1) readIntegerFrom4Bytes_blob_slice [of "?mid * 24" 20 mathIndexFile "(?mid + 1) * 24"]
      by simp
    from True cmp have eq: "uint8ArrayToHex (take 16 ?byteArray) = hexString"
      using hash by simp
    show ?thesis
      apply (subst findMathDataPosition.simps)
      using open_range eq r16 r20 True by (simp add: Let_def)
  next
    case False
    show ?thesis
    proof (cases "j < ?mid")
      case True
      with cmp hash have lt: "hexString < uint8ArrayToHex (take 16 ?byteArray)"
        and ne: "uint8ArrayToHex (take 16 ?byteArray) \<noteq> hexString"
        using False by auto
      have "findMathDataPosition mathIndexFile hexString lo (of_nat ?mid)
              = Delivered (u32_at mathIndexFile (j * 24 + 16), u32_at mathIndexFile (j * 24 + 20))"
        using True midn "1.prems"
        by (intro "1.IH"(1) [OF open_range refl refl refl ne lt]) simp_all
      then show ?thesis
        apply (subst findMathDataPosition.simps)
        using open_range ne lt by (simp add: Let_def)
    next
      case nlt: False
      with False have gt: "?mid < j" by arith
      with cmp hash have nl: "\<not> hexString < uint8ArrayToHex (take 16 ?byteArray)"
        and ne: "uint8ArrayToHex (take 16 ?byteArray) \<noteq> hexString"
        by auto
      have "findMathDataPosition mathIndexFile hexString (?mid + 1) hi
              = Delivered (u32_at mathIndexFile (j * 24 + 16), u32_at mathIndexFile (j * 24 + 20))"
        using gt "1.prems"
        by (intro "1.IH"(2) [OF open_range refl refl refl ne nl]) simp_all
      then show ?thesis
        apply (subst findMathDataPosition.simps)
        using open_range ne nl by (simp add: Let_def)
    qed
  qed
qed

lemma loadMathImage_found:
  assumes "length mathIndexFile = 24 * n"
    and "\<And>i k. i < k \<Longrightarrow> k < n \<Longrightarrow> entry_hash mathIndexFile i < entry_hash mathIndexFile k"
    and "j < n" and "hexString = entry_hash mathIndexFile j"
  shows "loadMathImage mathIndexFile mathDataFile hexString
           = Delivered (blob_slice mathDataFile (u32_at mathIndexFile (j * 24 + 16))
                          (u32_at mathIndexFile (j * 24 + 16) + u32_at mathIndexFile (j * 24 + 20)))"
proof -
  have "findMathDataPosition mathIndexFile hexString 0 (of_nat (length mathIndexFile) / 24)
          = Delivered (u32_at mathIndexFile (j * 24 + 16), u32_at mathIndexFile (j * 24 + 20))"
    using assms by (intro findMathDataPosition_found [where n = n]) simp_all
  then show ?thesis by (simp add: loadMathImage_def)
qed

lemma blob_slice_exact_length:
  "pos + len \<le> length f \<Longrightarrow> length (blob_slice f pos (pos + len)) = len"
  by (simp add: blob_slice_length)

text \<open>
  The math lookup scenario of the spec: two entries with the hashes \<open>00\<dots>01\<close> and
  \<open>00\<dots>02\<close>, positions 0 and 5, lengths 5 and 3, and the data \<open>HELLOBYE\<close>.
\<close>

lemma loadMathImage_scenario:
  "loadMathImage
     [0, 0, 0, 0, 0, 0, 0, 0, 0, 0, 0, 0, 0, 0, 0, 1,  0, 0, 0, 0,  5, 0, 0, 0,
      0, 0, 0, 0, 0, 0, 0, 0, 0, 0, 0, 0, 0, 0, 0, 2,  5, 0, 0, 0,  3, 0, 0, 0]
     [72, 69, 76, 76, 79, 66, 89, 69]
     ''00000000000000000000000000000002''
   = Delivered [66, 89, 69]"
  by (simp add: loadMathImage_def findMathDataPosition.simps [of _ _ 0 2] Let_def
      blob_slice_def hex_digit_def readIntegerFrom4Bytes_def)

text \<open>
  C8, the miss: on an empty math index the search ends at once with \<open>lo \<ge> hi\<close>, and the
  function returns without invoking the callback and without reporting anything. The
  source marks the place with "TODO error - not found".
\<close>

theorem loadMathImage_empty_index_no_report:
  "loadMathImage [] mathDataFile hexString = NoCallback"
  by (simp add: loadMathImage_def findMathDataPosition.simps)


section \<open>Properties of the exact title lookup\<close>

lemma check_find:
  "check n titleName ts =
     find (\<lambda>t. name t = titleName) (takeWhile (\<lambda>t. n (name t) = n titleName) ts)"
  by (induction ts) auto

lemma getTitleByName_scan:
  "getTitleByName normalizeString findPrefixOffset SequentialTitleIterator a titleName =
     find (\<lambda>t. name t = titleName)
       (takeWhile (\<lambda>t. getNormalizeFunction normalizeString a (name t)
                          = getNormalizeFunction normalizeString a titleName)
          (SequentialTitleIterator
             (findPrefixOffset titleName (getNormalizeFunction normalizeString a))))"
  by (simp add: getTitleByName_def check_find Let_def)

text \<open>
  For a name that is its own normalized form the lookup is the procedure of the spec, and
  for any findPrefixOffset a name that no record from the offset on carries gives null.
\<close>

lemma getTitleByName_normalized_name:
  assumes "getNormalizeFunction normalizeString a titleName = titleName"
  shows "getTitleByName normalizeString (spec_findPrefixOffset titleFile)
           (spec_SequentialTitleIterator titleFile) a titleName
         = getTitleByName_spec (getNormalizeFunction normalizeString a) titleFile titleName"
  using assms by (simp add: getTitleByName_scan getTitleByName_spec_def)

lemma getTitleByName_absent:
  assumes "\<forall>t \<in> set (SequentialTitleIterator
                (findPrefixOffset titleName (getNormalizeFunction normalizeString a))).
             name t \<noteq> titleName"
  shows "getTitleByName normalizeString findPrefixOffset SequentialTitleIterator a titleName = None"
  using assms unfolding getTitleByName_scan
  by (auto simp: find_None_iff dest: set_takeWhileD)


section \<open>Properties of the article reader\<close>

lemma substring_enough:
  assumes "bo + al \<le> length s"
  shows "substring s bo (bo + al) = take al (drop bo s)"
  using assms by (simp add: substring_def min_def max_def)

lemma substring_prefix: "al \<le> length s \<Longrightarrow> substring s 0 al = take al s"
  by (simp add: substring_def)

lemma find_dataFile_no_holes:
  "find_dataFile expected (map Some files) dataFile =
     Inr (case filter (\<lambda>f. regexpEndsWithExpectedFileName expected (file_name f)) files of
            [] \<Rightarrow> dataFile
          | f # fs \<Rightarrow> Some (last (f # fs)))"
proof (induction files arbitrary: dataFile)
  case Nil
  then show ?case by simp
next
  case (Cons f files)
  show ?case
    by (simp add: Cons.IH split: list.split)
qed

lemma find_dataFile_hole:
  "None \<in> set dataFiles \<Longrightarrow> find_dataFile expected dataFiles dataFile = Inl TypeError"
  by (induction expected dataFiles dataFile rule: find_dataFile.induct) auto

lemma readArticle_shard_present:
  assumes "filter (\<lambda>f. regexpEndsWithExpectedFileName (expectedFileName (fileNr t)) (file_name f))
             files \<noteq> []"
  shows "readArticle (map Some files) t st =
           readArticleChunk
             \<lparr>read_call = article_calls st, read_title = t,
              read_dataFile = content (last (filter (\<lambda>f. regexpEndsWithExpectedFileName
                                  (expectedFileName (fileNr t)) (file_name f)) files)),
              readLength = CHUNK_SIZE\<rparr>
             (st\<lparr>article_calls := article_calls st + 1\<rparr>)"
  using assms
  by (simp add: readArticle_def find_dataFile_no_holes Let_def split: list.split)

lemma article_run_append:
  "article_run bzip2 decodeUtf8 dataFiles (es @ es') st =
     article_run bzip2 decodeUtf8 dataFiles es' (article_run bzip2 decodeUtf8 dataFiles es st)"
  by (simp add: article_run_def)

lemma article_round:
  assumes "file_reads st = []" and "worker_inbox st = []"
  shows "article_run bzip2 decodeUtf8 dataFiles [FileLoaded 0, WorkerAnswers] (readArticleChunk c st) =
           worker_onmessage decodeUtf8 c
             (bzip2 (blob_slice (read_dataFile c) (blockStart (read_title c))
                       (blockStart (read_title c) + readLength c)))
             (st\<lparr>worker_handler := Some c\<rparr>)"
  using assms
  by (cases st) (simp add: article_run_def readArticleChunk_def reader_onload_def remove_nth_def)

lemma worker_onmessage_more:
  assumes "needs_more (read_title c) msg"
  shows "worker_onmessage decodeUtf8 c msg st =
           readArticleChunk (c\<lparr>readLength := readLength c + CHUNK_SIZE\<rparr>) st"
  using assms
  by (auto simp: worker_onmessage_def needs_more_def Let_def split: codec_message.splits)

lemma worker_onmessage_enough:
  assumes "blockOffset (read_title c) + articleLength (read_title c) \<le> length htmlArticles"
    and "decodeUtf8 (substring htmlArticles (blockOffset (read_title c))
                       (blockOffset (read_title c) + articleLength (read_title c))) = Some decoded"
  shows "worker_onmessage decodeUtf8 c (Result htmlArticles) st =
           st\<lparr>article_effects := article_effects st @
                 [ArticleCallback (read_call c) (read_title c) decoded]\<rparr>"
proof -
  let ?t = "read_title c"
  have s: "substring htmlArticles (blockOffset ?t) (blockOffset ?t + articleLength ?t)
           = take (articleLength ?t) (drop (blockOffset ?t) htmlArticles)"
    using assms(1) by (rule substring_enough)
  have l: "length (take (articleLength ?t) (drop (blockOffset ?t) htmlArticles)) = articleLength ?t"
    using assms(1) by simp
  have p: "substring (take (articleLength ?t) (drop (blockOffset ?t) htmlArticles)) 0 (articleLength ?t)
           = take (articleLength ?t) (drop (blockOffset ?t) htmlArticles)"
    using l by (simp add: substring_prefix)
  from assms(2) have d: "decodeUtf8 (take (articleLength ?t) (drop (blockOffset ?t) htmlArticles))
                          = Some decoded"
    by (simp only: s)
  show ?thesis
    using assms(1) by (simp add: worker_onmessage_def Let_def s p d)
qed

lemma article_rounds:
  assumes "file_reads st = []" and "worker_inbox st = []"
    and "\<forall>j<k. needs_more (read_title c)
           (bzip2 (blob_slice (read_dataFile c) (blockStart (read_title c))
                     (blockStart (read_title c) + (readLength c + j * CHUNK_SIZE))))"
  shows "\<exists>st'. article_run bzip2 decodeUtf8 dataFiles
                 (concat (replicate k [FileLoaded 0, WorkerAnswers])) (readArticleChunk c st)
               = readArticleChunk (c\<lparr>readLength := readLength c + k * CHUNK_SIZE\<rparr>) st'
             \<and> file_reads st' = [] \<and> worker_inbox st' = []
             \<and> article_effects st' = article_effects st \<and> article_calls st' = article_calls st"
  using assms
proof (induction k arbitrary: c st)
  case 0
  then show ?case by (intro exI [of _ st]) (simp add: article_run_def)
next
  case (Suc k)
  let ?c = "c\<lparr>readLength := readLength c + CHUNK_SIZE\<rparr>"
  let ?st = "st\<lparr>worker_handler := Some c\<rparr>"
  from Suc.prems(3) have first: "needs_more (read_title c)
           (bzip2 (blob_slice (read_dataFile c) (blockStart (read_title c))
                     (blockStart (read_title c) + readLength c)))"
    by (metis add.right_neutral mult_zero_left zero_less_Suc)
  have round: "article_run bzip2 decodeUtf8 dataFiles [FileLoaded 0, WorkerAnswers]
                 (readArticleChunk c st) = readArticleChunk ?c ?st"
    using Suc.prems(1) Suc.prems(2) first
    by (simp add: article_round worker_onmessage_more)
  have rest: "\<forall>j<k. needs_more (read_title ?c)
           (bzip2 (blob_slice (read_dataFile ?c) (blockStart (read_title ?c))
                     (blockStart (read_title ?c) + (readLength ?c + j * CHUNK_SIZE))))"
  proof (intro allI impI)
    fix j assume "j < k"
    then have "Suc j < Suc k" by simp
    with Suc.prems(3) have "needs_more (read_title c)
           (bzip2 (blob_slice (read_dataFile c) (blockStart (read_title c))
                     (blockStart (read_title c) + (readLength c + Suc j * CHUNK_SIZE))))"
      by blast
    then show "needs_more (read_title ?c)
           (bzip2 (blob_slice (read_dataFile ?c) (blockStart (read_title ?c))
                     (blockStart (read_title ?c) + (readLength ?c + j * CHUNK_SIZE))))"
      by (simp add: ac_simps)
  qed
  have "file_reads ?st = []" "worker_inbox ?st = []"
    using Suc.prems(1) Suc.prems(2) by simp_all
  from Suc.IH [OF this rest] obtain st' where
    run: "article_run bzip2 decodeUtf8 dataFiles
            (concat (replicate k [FileLoaded 0, WorkerAnswers])) (readArticleChunk ?c ?st)
          = readArticleChunk (?c\<lparr>readLength := readLength ?c + k * CHUNK_SIZE\<rparr>) st'"
    and props: "file_reads st' = []" "worker_inbox st' = []"
      "article_effects st' = article_effects ?st" "article_calls st' = article_calls ?st"
    by blast
  have "article_run bzip2 decodeUtf8 dataFiles
          (concat (replicate (Suc k) [FileLoaded 0, WorkerAnswers])) (readArticleChunk c st)
        = article_run bzip2 decodeUtf8 dataFiles
            (concat (replicate k [FileLoaded 0, WorkerAnswers]))
            (article_run bzip2 decodeUtf8 dataFiles [FileLoaded 0, WorkerAnswers]
               (readArticleChunk c st))"
    by (simp add: article_run_def)
  also have "\<dots> = readArticleChunk (?c\<lparr>readLength := readLength ?c + k * CHUNK_SIZE\<rparr>) st'"
    unfolding round by (rule run)
  also have "?c\<lparr>readLength := readLength ?c + k * CHUNK_SIZE\<rparr>
             = c\<lparr>readLength := readLength c + Suc k * CHUNK_SIZE\<rparr>"
    by (simp add: ac_simps)
  finally show ?case
    using props by (intro exI [of _ st']) simp
qed


text \<open>An empty slot in the array of data files makes readArticle throw, whatever the other files are.\<close>

lemma readArticle_hole:
  "None \<in> set dataFiles \<Longrightarrow>
   article_effects (readArticle dataFiles t st) = article_effects st @ [ArticleUncaught TypeError]"
  by (simp add: readArticle_def find_dataFile_hole)

text \<open>
  Two reads in flight share the worker: the second file read that completes overwrites the
  handlers of the first, so both answers go to the callback of the second call, and the
  callback of the first call is never invoked.
\<close>

lemma readArticle_shared_worker:
  "article_effects
     (article_run (test_codec 0 ''<p>hello</p><p>world</p>'') decodeURIComponent_escape
        (map Some test_dataFiles)
        [ReadArticle (test_title ''apple'' 0), ReadArticle ((test_title ''banana'' 0)\<lparr>blockOffset := 15\<rparr>),
         FileLoaded 0, FileLoaded 0, WorkerAnswers, WorkerAnswers]
        idle_reader)
   = [ArticleCallback 1 ((test_title ''banana'' 0)\<lparr>blockOffset := 15\<rparr>) [119, 111, 114, 108, 100],
      ArticleCallback 1 ((test_title ''banana'' 0)\<lparr>blockOffset := 15\<rparr>) [119, 111, 114, 108, 100]]"
  by (simp add: article_run_def readArticle_def readArticleChunk_def reader_onload_def
      worker_onmessage_def idle_reader_def test_codec_def test_dataFiles_def test_title_def
      expectedFileName_def string_of_nat.simps regexpEndsWithExpectedFileName_def regex_char_def
      newline_def remove_nth_def substring_def Let_def decodeURIComponent_escape_def)

text \<open>
  C4, as stated, fails: the shard is present and the block decompresses to 12 characters,
  with \<open>blockOffset + articleLength = 8\<close>, but the slice holds the byte \<open>0xE9\<close>
  alone, which is not UTF-8. The decoding step throws, nothing is delivered, and no read
  is left in flight.
\<close>

theorem readArticle_not_utf8_counterexample:
  "article_run
     (test_codec 0 [CHR ''<'', CHR ''p'', CHR ''>'', CHR ''h'', CHR 0xE9, CHR ''l'', CHR ''l'',
                    CHR ''o'', CHR ''<'', CHR ''/'', CHR ''p'', CHR ''>''])
     decodeURIComponent_escape (map Some test_dataFiles)
     [ReadArticle (test_title ''apple'' 2), FileLoaded 0, WorkerAnswers] idle_reader
   = \<lparr>article_calls = 1, file_reads = [],
      worker_handler = Some \<lparr>read_call = 0, read_title = test_title ''apple'' 2,
                              read_dataFile = replicate 131080 66, readLength = 131072\<rparr>,
      worker_inbox = [], article_effects = [ArticleUncaught URIError]\<rparr>"
  by (simp add: article_run_def readArticle_def readArticleChunk_def reader_onload_def
      worker_onmessage_def idle_reader_def test_codec_def test_dataFiles_def test_title_def
      expectedFileName_def string_of_nat.simps regexpEndsWithExpectedFileName_def regex_char_def
      newline_def remove_nth_def substring_def Let_def decodeURIComponent_escape_def
      continuation_def CHUNK_SIZE_def)

text \<open>
  C4, amended: let the array of data files have no empty slot and hold a file whose name
  ends with the expected shard name (the last such file is the shard), let no other
  article read be in flight, let the worker ask for more (or give too short a text) on
  each of the first \<open>k\<close> reads and answer the read of \<open>(k + 1) * CHUNK_SIZE\<close> bytes with
  a text of at least \<open>blockOffset + articleLength\<close> characters, and let the slice be
  valid UTF-8. Then the slice taken before the decoding step has exactly
  \<open>articleLength\<close> characters, and after the \<open>k + 1\<close> reads the callback of this call
  has been invoked once, with the title and the decoding of that slice, and no read is
  left in flight.
\<close>

theorem readArticle_slice_length:
  assumes "filter (\<lambda>f. regexpEndsWithExpectedFileName (expectedFileName (fileNr t)) (file_name f))
             files \<noteq> []"
    and "dataFile = last (filter (\<lambda>f. regexpEndsWithExpectedFileName
                                     (expectedFileName (fileNr t)) (file_name f)) files)"
    and "file_reads st = []" and "worker_inbox st = []"
    and "\<forall>j<k. needs_more t
           (bzip2 (blob_slice (content dataFile) (blockStart t)
                     (blockStart t + (CHUNK_SIZE + j * CHUNK_SIZE))))"
    and "bzip2 (blob_slice (content dataFile) (blockStart t)
                  (blockStart t + (CHUNK_SIZE + k * CHUNK_SIZE))) = Result htmlArticles"
    and "blockOffset t + articleLength t \<le> length htmlArticles"
    and "decodeUtf8 (substring htmlArticles (blockOffset t) (blockOffset t + articleLength t))
         = Some decoded"
  shows "length (substring htmlArticles (blockOffset t) (blockOffset t + articleLength t))
           = articleLength t
         \<and> article_effects
             (article_run bzip2 decodeUtf8 (map Some files)
                (ReadArticle t # concat (replicate (Suc k) [FileLoaded 0, WorkerAnswers])) st)
           = article_effects st @ [ArticleCallback (article_calls st) t decoded]
         \<and> file_reads
             (article_run bzip2 decodeUtf8 (map Some files)
                (ReadArticle t # concat (replicate (Suc k) [FileLoaded 0, WorkerAnswers])) st) = []
         \<and> worker_inbox
             (article_run bzip2 decodeUtf8 (map Some files)
                (ReadArticle t # concat (replicate (Suc k) [FileLoaded 0, WorkerAnswers])) st) = []"
proof -
  let ?c = "\<lparr>read_call = article_calls st, read_title = t, read_dataFile = content dataFile,
            readLength = CHUNK_SIZE\<rparr>"
  let ?st = "st\<lparr>article_calls := article_calls st + 1\<rparr>"
  let ?ck = "?c\<lparr>readLength := readLength ?c + k * CHUNK_SIZE\<rparr>"
  have call: "readArticle (map Some files) t st = readArticleChunk ?c ?st"
    using assms(1) unfolding assms(2) by (rule readArticle_shard_present)
  have idle: "file_reads ?st = []" "worker_inbox ?st = []"
    using assms(3) assms(4) by simp_all
  have more: "\<forall>j<k. needs_more (read_title ?c)
           (bzip2 (blob_slice (read_dataFile ?c) (blockStart (read_title ?c))
                     (blockStart (read_title ?c) + (readLength ?c + j * CHUNK_SIZE))))"
    using assms(5) by simp
  from article_rounds [of _ _ _ _ decodeUtf8 "map Some files", OF idle more] obtain st' where
    run: "article_run bzip2 decodeUtf8 (map Some files)
            (concat (replicate k [FileLoaded 0, WorkerAnswers])) (readArticleChunk ?c ?st)
          = readArticleChunk ?ck st'"
    and props: "file_reads st' = []" "worker_inbox st' = []"
      "article_effects st' = article_effects ?st" "article_calls st' = article_calls ?st"
    by blast
  have answer: "bzip2 (blob_slice (read_dataFile ?ck) (blockStart (read_title ?ck))
                         (blockStart (read_title ?ck) + readLength ?ck)) = Result htmlArticles"
    using assms(6) by simp
  have enough: "blockOffset (read_title ?ck) + articleLength (read_title ?ck) \<le> length htmlArticles"
    using assms(7) by simp
  have dec: "decodeUtf8 (substring htmlArticles (blockOffset (read_title ?ck))
                       (blockOffset (read_title ?ck) + articleLength (read_title ?ck))) = Some decoded"
    using assms(8) by simp
  have last_round: "article_run bzip2 decodeUtf8 (map Some files) [FileLoaded 0, WorkerAnswers]
                      (readArticleChunk ?ck st')
                    = st'\<lparr>worker_handler := Some ?ck,
                          article_effects := article_effects st' @
                            [ArticleCallback (article_calls st) t decoded]\<rparr>"
  proof -
    have "worker_onmessage decodeUtf8 ?ck (Result htmlArticles) (st'\<lparr>worker_handler := Some ?ck\<rparr>)
          = (st'\<lparr>worker_handler := Some ?ck\<rparr>)\<lparr>article_effects :=
               article_effects (st'\<lparr>worker_handler := Some ?ck\<rparr>) @
               [ArticleCallback (read_call ?ck) (read_title ?ck) decoded]\<rparr>"
      using enough dec by (rule worker_onmessage_enough)
    then show ?thesis
      unfolding article_round [OF props(1) props(2)] answer by simp
  qed
  have events: "ReadArticle t # concat (replicate (Suc k) [FileLoaded 0, WorkerAnswers])
                = [ReadArticle t] @ concat (replicate k [FileLoaded 0, WorkerAnswers])
                  @ [FileLoaded 0, WorkerAnswers]"
  proof -
    have "replicate (Suc k) r = replicate k r @ [r]" for r :: "'a article_event list"
      by (simp add: replicate_append_same)
    then show ?thesis by simp
  qed
  have first: "article_run bzip2 decodeUtf8 (map Some files) [ReadArticle t] st
               = readArticleChunk ?c ?st"
    by (simp add: article_run_def call)
  have final: "article_run bzip2 decodeUtf8 (map Some files)
                 (ReadArticle t # concat (replicate (Suc k) [FileLoaded 0, WorkerAnswers])) st
               = st'\<lparr>worker_handler := Some ?ck,
                     article_effects := article_effects st' @
                       [ArticleCallback (article_calls st) t decoded]\<rparr>"
    unfolding events article_run_append first run last_round ..
  have len: "length (substring htmlArticles (blockOffset t) (blockOffset t + articleLength t))
             = articleLength t"
    using assms(7) by (simp add: substring_enough)
  show ?thesis
    unfolding final using len props by simp
qed


theorem readArticle_slice_length_witness:
  "article_effects
     (article_run
        (test_codec 131073 [CHR ''<'', CHR ''p'', CHR ''>'', CHR ''h'', CHR 0xC3, CHR 0xA9, CHR ''l'',
                            CHR ''l'', CHR ''o'', CHR ''<'', CHR ''/'', CHR ''p'', CHR ''>''])
        decodeURIComponent_escape (map Some test_dataFiles)
        [ReadArticle ((test_title ''apple'' 2)\<lparr>articleLength := 6\<rparr>),
         FileLoaded 0, WorkerAnswers, FileLoaded 0, WorkerAnswers]
        idle_reader)
   = [ArticleCallback 0 ((test_title ''apple'' 2)\<lparr>articleLength := 6\<rparr>) [104, 233, 108, 108, 111]]
   \<and> substring [CHR ''<'', CHR ''p'', CHR ''>'', CHR ''h'', CHR 0xC3, CHR 0xA9, CHR ''l'',
                 CHR ''l'', CHR ''o'', CHR ''<'', CHR ''/'', CHR ''p'', CHR ''>''] 3 (3 + 6)
       = [CHR ''h'', CHR 0xC3, CHR 0xA9, CHR ''l'', CHR ''l'', CHR ''o'']"
proof -
  let ?text = "[CHR ''<'', CHR ''p'', CHR ''>'', CHR ''h'', CHR 0xC3, CHR 0xA9, CHR ''l'',
                CHR ''l'', CHR ''o'', CHR ''<'', CHR ''/'', CHR ''p'', CHR ''>'']"
  let ?t = "(test_title ''apple'' 2)\<lparr>articleLength := 6\<rparr>"
  let ?f = "\<lparr>file_name = ''sdcard/wikipedia_00.dat'', content = replicate 131080 (66 :: byte)\<rparr>"
  let ?P = "\<lambda>f. regexpEndsWithExpectedFileName (expectedFileName (fileNr ?t)) (file_name f)"
  have shards: "filter ?P test_dataFiles = [?f]"
    by (simp add: test_dataFiles_def test_title_def expectedFileName_def string_of_nat.simps
        regexpEndsWithExpectedFileName_def regex_char_def newline_def)
  have present: "filter ?P test_dataFiles \<noteq> []"
    unfolding shards by simp
  have shard: "?f = last (filter ?P test_dataFiles)"
    unfolding shards by simp
  have idle: "file_reads (idle_reader :: (unit, nat list) reader_state) = []"
    "worker_inbox (idle_reader :: (unit, nat list) reader_state) = []"
    by (simp_all add: idle_reader_def)
  have more: "\<forall>j<1. needs_more ?t
           (test_codec 131073 ?text (blob_slice (content ?f) (blockStart ?t)
                     (blockStart ?t + (CHUNK_SIZE + j * CHUNK_SIZE))))"
    by (simp add: needs_more_def test_codec_def blob_slice_def CHUNK_SIZE_def test_title_def)
  have answer: "test_codec 131073 ?text (blob_slice (content ?f) (blockStart ?t)
                  (blockStart ?t + (CHUNK_SIZE + 1 * CHUNK_SIZE))) = Result ?text"
    by (simp add: test_codec_def blob_slice_def CHUNK_SIZE_def test_title_def)
  have enough: "blockOffset ?t + articleLength ?t \<le> length ?text"
    by (simp add: test_title_def)
  have slice: "substring ?text 3 (3 + 6) = [CHR ''h'', CHR 0xC3, CHR 0xA9, CHR ''l'', CHR ''l'', CHR ''o'']"
    by (simp add: substring_def)
  have decoded: "decodeURIComponent_escape
                   (substring ?text (blockOffset ?t) (blockOffset ?t + articleLength ?t))
                 = Some [104, 233, 108, 108, 111]"
    by (simp add: test_title_def substring_def decodeURIComponent_escape_def continuation_def)
  from readArticle_slice_length [of ?t test_dataFiles ?f idle_reader 1 "test_codec 131073 ?text"
      ?text decodeURIComponent_escape "[104, 233, 108, 108, 111]",
      OF present shard idle more answer enough decoded]
  have "article_effects
     (article_run (test_codec 131073 ?text) decodeURIComponent_escape (map Some test_dataFiles)
        (ReadArticle ?t # concat (replicate (Suc 1) [FileLoaded 0, WorkerAnswers])) idle_reader)
     = article_effects (idle_reader :: (unit, nat list) reader_state)
       @ [ArticleCallback (article_calls (idle_reader :: (unit, nat list) reader_state)) ?t
            [104, 233, 108, 108, 111]]"
    by blast
  then show ?thesis
    using slice by (simp add: idle_reader_def)
qed

section \<open>Evaluating the spatial search on the fixtures\<close>

lemmas spatial_eval = run_def initial_state_def getTitlesInCoords_def getTitlesInCoordsInt_def
  onload_def finish_def callbackGetTitlesInCoordsInt_def
  readTitlesFromTitleCoordsInTitleFile_def titleList_callback_def getTitlesStartingAtOffset_def
  test_geometry_def test_leaf_def test_leaf3_def test_iterator_def test_normalized_def remove_nth_def
  blob_slice_def readIntegerFrom2Bytes_def readIntegerFrom4Bytes_def readCoordinates_def
  readFloatFrom4Bytes_def Let_def upt_rec

lemma bounded_search_delivers: "run test_geometry [Some test_leaf] test_iterator [Call (0, 45, 10, 10) 5, Load 0, TitleLoad 0]
        initial_state
     = \<lparr>callbackCounterForTitlesInCoordsSearch = 0,
        searches = [\<lparr>targetRect = (0, 45, 10, 10), maxTitles = 5, titlePositionsFound = [(100, 2, 48)]\<rparr>],
        reads = [], conversions = [], outputs = [Callback 0 [\<lparr>name = ''Paris'', fileNr = Number 0, blockStart = 0, blockOffset = 0, articleLength = 1,
       titleOffset = Some 100, geolocation = Some (2, 48)\<rparr>]]\<rparr>"
  by (simp add: spatial_eval)

section \<open>The invariant of the spatial search holds in every reachable state\<close>

lemma inv_counter [simp]:
  "search_invariant g A (st\<lparr>callbackCounterForTitlesInCoordsSearch := c\<rparr>) = search_invariant g A st"
  by (simp add: search_invariant_def)

lemma inv_mono: "search_invariant g A st \<Longrightarrow> A \<subseteq> B \<Longrightarrow> search_invariant g B st"
  by (auto simp: search_invariant_def)

lemma set_remove_nth: "set (remove_nth k xs) \<subseteq> set xs"
  by (auto simp: remove_nth_def dest: in_set_takeD in_set_dropD)

lemma inv_remove_read: "search_invariant g A st \<Longrightarrow> search_invariant g A (st\<lparr>reads := remove_nth k (reads st)\<rparr>)"
  using set_remove_nth [of k "reads st"] by (auto simp: search_invariant_def)

lemma inv_remove_conversion:
  "search_invariant g A st \<Longrightarrow> search_invariant g A (st\<lparr>conversions := remove_nth k (conversions st)\<rparr>)"
  using set_remove_nth [of k "conversions st"] by (simp add: search_invariant_def subset_iff)

lemma inv_add_read:
  "search_invariant g A st \<Longrightarrow> read_search r < length (searches st) \<Longrightarrow> search_invariant g A (st\<lparr>reads := reads st @ [r]\<rparr>)"
  by (auto simp: search_invariant_def)

lemma inv_add_alert: "search_invariant g A st \<Longrightarrow> search_invariant g A (st\<lparr>outputs := outputs st @ [Alert m]\<rparr>)"
  by (auto simp: search_invariant_def)

lemma inv_add_uncaught: "search_invariant g A st \<Longrightarrow> search_invariant g A (st\<lparr>outputs := outputs st @ [Uncaught e]\<rparr>)"
  by (auto simp: search_invariant_def)

lemma inv_settle: "search_invariant g A (state_of c) \<Longrightarrow> search_invariant g A (settle c)"
  by (cases c) (simp_all add: inv_add_uncaught)

lemma inv_getTitlesInCoordsInt:
  "search_invariant g A st \<Longrightarrow> read_search r < length (searches st)
   \<Longrightarrow> search_invariant g A (state_of (getTitlesInCoordsInt files r st))"
  by (simp add: getTitlesInCoordsInt_def inv_add_read split: option.split)

lemma searches_getTitlesInCoordsInt [simp]:
  "searches (state_of (getTitlesInCoordsInt files r st)) = searches st"
  by (simp add: getTitlesInCoordsInt_def split: option.split)

lemma descend_props:
  "search_invariant g A st \<Longrightarrow> read_search r < length (searches st)
   \<Longrightarrow> search_invariant g A (state_of (descend g files r target children st))
       \<and> searches (state_of (descend g files r target children st)) = searches st"
proof (induction children arbitrary: st)
  case Nil
  then show ?case by simp
next
  case (Cons ch children)
  obtain rect pos where ch: "ch = (rect, pos)" by (cases ch)
  let ?st1 = "st\<lparr>callbackCounterForTitlesInCoordsSearch :=
                      callbackCounterForTitlesInCoordsSearch st + 1\<rparr>"
  let ?c = "getTitlesInCoordsInt files (r\<lparr>coordFilePos := pos, thisRect := rect\<rparr>) ?st1"
  have i1: "search_invariant g A (state_of ?c)"
    using Cons.prems by (intro inv_getTitlesInCoordsInt) simp_all
  have s1: "searches (state_of ?c) = searches st" by simp
  show ?case
  proof (cases "intersect g target rect")
    case False
    with Cons ch show ?thesis by simp
  next
    case True
    show ?thesis
    proof (cases ?c)
      case (Completed st')
      with i1 s1 have "search_invariant g A st'" "searches st' = searches st" by simp_all
      with Cons.IH [of st'] Cons.prems(2) True ch Completed show ?thesis by simp
    next
      case (Threw e st')
      with i1 s1 True ch show ?thesis by simp
    qed
  qed
qed

lemma inner_node_props:
  "search_invariant g A st \<Longrightarrow> read_search r < length (searches st)
   \<Longrightarrow> search_invariant g A (state_of (inner_node g files r target byteArray st))
       \<and> searches (state_of (inner_node g files r target byteArray st)) = searches st"
  by (simp add: inner_node_def Let_def descend_props del: descend.simps split: option.split)

lemma readTitles_props:
  assumes "search_invariant g A st" and "sid < length (searches st)"
    and "\<forall>t \<in> set found. located g (targetRect (searches st ! sid)) t"
  shows "search_invariant g A (state_of (readTitlesFromTitleCoordsInTitleFile sid i found st))"
proof (cases "i < length (titlePositionsFound (searches st ! sid))")
  case False
  with assms show ?thesis by (simp add: readTitlesFromTitleCoordsInTitleFile_def)
next
  case True
  let ?s = "searches st ! sid"
  have "?s \<in> set (searches st)" using assms(2) by simp
  moreover have "titlePositionsFound ?s ! i \<in> set (titlePositionsFound ?s)" using True by simp
  ultimately have "containsPoint g (targetRect ?s) (snd (titlePositionsFound ?s ! i))"
    using assms(1) by (simp add: search_invariant_def)
  with True assms show ?thesis
    by (auto simp: readTitlesFromTitleCoordsInTitleFile_def search_invariant_def Let_def)
qed

lemma callbackGet_props:
  assumes "search_invariant g A st" and "sid < length (searches st)"
  shows "search_invariant g A (state_of (callbackGetTitlesInCoordsInt sid st))"
proof (cases "0 < length (titlePositionsFound (searches st ! sid))")
  case True
  with readTitles_props [OF assms, of "[]" 0] show ?thesis
    by (simp add: callbackGetTitlesInCoordsInt_def)
next
  case False
  with assms show ?thesis
    by (auto simp: callbackGetTitlesInCoordsInt_def search_invariant_def)
qed

lemma finish_props:
  assumes "search_invariant g A st" and "sid < length (searches st)"
  shows "search_invariant g A (state_of (finish sid st))"
  using assms by (simp add: finish_def callbackGet_props)

lemma leaf_entries_inside:
  "\<forall>e \<in> set found. containsPoint g target (snd e)
   \<Longrightarrow> \<forall>e \<in> set (state_of (leaf_entries g byteArray target limit is found)).
         containsPoint g target (snd e)"
proof (induction "is" arbitrary: found)
  case Nil
  then show ?case by simp
next
  case (Cons i rest)
  have ext: "\<forall>e \<in> set (found @ [(off, p)]). containsPoint g target (snd e)"
    if "containsPoint g target p" for off p
    using Cons.prems that by simp
  show ?case
    using Cons.IH [OF Cons.prems] Cons.IH [OF ext] Cons.prems
    by (simp add: Let_def split: option.split)
qed

lemma inv_update_found:
  assumes "search_invariant g A st" and "sid < length (searches st)"
    and "\<forall>e \<in> set found. containsPoint g (targetRect (searches st ! sid)) (snd e)"
  shows "search_invariant g A (st\<lparr>searches := (searches st)[sid := (searches st ! sid)\<lparr>titlePositionsFound := found\<rparr>]\<rparr>)"
proof -
  let ?ss = "(searches st)[sid := (searches st ! sid)\<lparr>titlePositionsFound := found\<rparr>]"
  have rect: "targetRect (?ss ! i) = targetRect (searches st ! i)" for i
    using assms(2) by (cases "i = sid") simp_all
  have len: "length ?ss = length (searches st)" by simp
  have mem: "targetRect s \<in> A \<and> (\<forall>e \<in> set (titlePositionsFound s). containsPoint g (targetRect s) (snd e))"
    if "s \<in> set ?ss" for s
  proof -
    from that have "s = (searches st ! sid)\<lparr>titlePositionsFound := found\<rparr> \<or> s \<in> set (searches st)"
      by (auto dest: set_update_subset_insert [THEN subsetD])
    then show ?thesis
    proof
      assume s: "s = (searches st ! sid)\<lparr>titlePositionsFound := found\<rparr>"
      have "searches st ! sid \<in> set (searches st)" using assms(2) by simp
      with assms(1) have "targetRect (searches st ! sid) \<in> A" by (simp add: search_invariant_def)
      with s assms(3) show ?thesis by simp
    next
      assume "s \<in> set (searches st)"
      with assms(1) show ?thesis by (simp add: search_invariant_def)
    qed
  qed
  show ?thesis
    unfolding search_invariant_def
    using assms(1) mem by (simp add: rect search_invariant_def)
qed


lemma inv_add_callback:
  assumes "search_invariant g A st" and "sid < length (searches st)"
    and "sorted (map (\<lambda>a. distance g (center g (targetRect (searches st ! sid)))
                         (the (geolocation a))) ts)"
    and "\<forall>t \<in> set ts. located g (targetRect (searches st ! sid)) t"
  shows "search_invariant g A (st\<lparr>outputs := outputs st @ [Callback sid ts]\<rparr>)"
  using assms by (auto simp: search_invariant_def)

lemma onload_props:
  assumes "search_invariant g A st" and "read_search r < length (searches st)"
  shows "search_invariant g A (state_of (onload g files r st))"
proof -
  let ?st = "st\<lparr>callbackCounterForTitlesInCoordsSearch :=
                  callbackCounterForTitlesInCoordsSearch st - 1\<rparr>"
  let ?sid = "read_search r"
  let ?s = "searches ?st ! ?sid"
  have i: "search_invariant g A ?st" and l: "?sid < length (searches ?st)"
    using assms by simp_all
  have fin: "search_invariant g A (state_of (finish ?sid ?st))"
    by (rule finish_props [OF i l])
  have inner: "search_invariant g A (state_of (case inner_node g files r (targetRect ?s) (blob r) ?st of
                                    Threw e st' \<Rightarrow> Threw e st'
                                  | Completed st' \<Rightarrow> finish ?sid st'))"
  proof (cases "inner_node g files r (targetRect ?s) (blob r) ?st")
    case (Completed st')
    with inner_node_props [OF i l, of files "targetRect ?s" "blob r"]
    have "search_invariant g A st'" "searches st' = searches ?st" by simp_all
    with l Completed show ?thesis by (simp add: finish_props)
  next
    case (Threw e st')
    with inner_node_props [OF i l, of files "targetRect ?s" "blob r"] show ?thesis by simp
  qed
  have leaf: "search_invariant g A (state_of (case leaf_entries g (blob r) (targetRect ?s) (maxTitles ?s) idxs
                                        (titlePositionsFound ?s) of
                        Threw e found \<Rightarrow>
                          Threw e (?st\<lparr>searches := (searches ?st)
                                       [?sid := ?s\<lparr>titlePositionsFound := found\<rparr>]\<rparr>)
                      | Completed found \<Rightarrow>
                          finish ?sid (?st\<lparr>searches := (searches ?st)
                                          [?sid := ?s\<lparr>titlePositionsFound := found\<rparr>]\<rparr>)))"
    for idxs
  proof -
    let ?c = "leaf_entries g (blob r) (targetRect ?s) (maxTitles ?s) idxs (titlePositionsFound ?s)"
    have "?s \<in> set (searches ?st)" using l by simp
    with i have "\<forall>e \<in> set (titlePositionsFound ?s). containsPoint g (targetRect ?s) (snd e)"
      by (simp add: search_invariant_def)
    then have ins: "\<forall>e \<in> set (state_of ?c). containsPoint g (targetRect ?s) (snd e)"
      by (rule leaf_entries_inside)
    have upd: "search_invariant g A (?st\<lparr>searches := (searches ?st)
                                [?sid := ?s\<lparr>titlePositionsFound := state_of ?c\<rparr>]\<rparr>)"
      by (rule inv_update_found [OF i l ins])
    show ?thesis
    proof (cases ?c)
      case (Completed found)
      with upd l show ?thesis by (simp add: finish_props)
    next
      case (Threw e found)
      with upd show ?thesis by simp
    qed
  qed
  show ?thesis
    unfolding onload_def Let_def
    using fin inner leaf i by (simp split: option.split)
qed

lemma titleList_callback_props:
  assumes "search_invariant g A st" and "conv_search c < length (searches st)"
    and "containsPoint g (targetRect (searches st ! conv_search c)) (conv_geolocation c)"
    and "\<forall>t \<in> set (titlesFound c). located g (targetRect (searches st ! conv_search c)) t"
  shows "search_invariant g A (state_of (titleList_callback g iter c st))"
proof -
  let ?sid = "conv_search c"
  let ?rect = "targetRect (searches st ! ?sid)"
  let ?titleList = "getTitlesStartingAtOffset iter (conv_titleOffset c) 1"
  let ?t = "(?titleList ! 0)\<lparr>geolocation := Some (conv_geolocation c)\<rparr>"
  let ?found = "titlesFound c @ [?t]"
  let ?key = "\<lambda>a. distance g (center g ?rect) (the (geolocation a))"
  have loc: "\<forall>t \<in> set ?found. located g ?rect t"
    using assms(3,4) by (simp add: located_def)
  have more: "search_invariant g A (state_of (readTitlesFromTitleCoordsInTitleFile ?sid i ?found st))" for i
    by (rule readTitles_props [OF assms(1,2) loc])
  have deliver: "search_invariant g A (st\<lparr>outputs := outputs st @ [Callback ?sid (sort_key ?key ?found)]\<rparr>)"
  proof (rule inv_add_callback [OF assms(1,2)])
    show "sorted (map ?key (sort_key ?key ?found))" by (rule sorted_sort_key)
    show "\<forall>t \<in> set (sort_key ?key ?found). located g ?rect t"
      using loc by simp
  qed
  have alert: "search_invariant g A (st\<lparr>outputs := outputs st @ [Alert m]\<rparr>)" for m
    by (rule inv_add_alert [OF assms(1)])
  show ?thesis
    unfolding titleList_callback_def Let_def
    using more deliver alert by simp
qed

lemma coordinate_files_loop_props:
  "search_invariant g A st \<Longrightarrow> sid < length (searches st)
   \<Longrightarrow> search_invariant g A (state_of (coordinate_files_loop g files sid idxs st))"
proof (induction idxs arbitrary: st)
  case Nil
  then show ?case by simp
next
  case (Cons i rest)
  let ?r = "\<lparr>read_search = sid, coordinateFileIndex = i, coordFilePos = 0,
             thisRect = GLOBE_RECTANGLE g, blob = []\<rparr>"
  let ?st1 = "st\<lparr>callbackCounterForTitlesInCoordsSearch :=
                   callbackCounterForTitlesInCoordsSearch st + 1\<rparr>"
  let ?c = "getTitlesInCoordsInt files ?r ?st1"
  have i1: "search_invariant g A (state_of ?c)"
    using Cons.prems by (intro inv_getTitlesInCoordsInt) simp_all
  have s1: "searches (state_of ?c) = searches st" by simp
  show ?case
  proof (cases ?c)
    case (Completed st')
    with i1 s1 have "search_invariant g A st'" "searches st' = searches st" by simp_all
    with Cons.IH [of st'] Cons.prems(2) Completed show ?thesis by simp
  next
    case (Threw e st')
    with i1 show ?thesis by simp
  qed
qed

lemma inv_add_search:
  assumes "search_invariant g A st"
  shows "search_invariant g (insert R A)
           (st\<lparr>searches := searches st @ [\<lparr>targetRect = R, maxTitles = n, titlePositionsFound = []\<rparr>]\<rparr>)"
proof -
  let ?new = "\<lparr>targetRect = R, maxTitles = n, titlePositionsFound = ([] :: (nat \<times> 'a point) list)\<rparr>"
  have old: "(searches st @ [?new]) ! i = searches st ! i" if "i < length (searches st)" for i
    using that by (simp add: nth_append)
  have r: "\<forall>r \<in> set (reads st). read_search r < length (searches st @ [?new])"
    using assms by (auto simp: search_invariant_def less_Suc_eq)
  have c: "\<forall>c \<in> set (conversions st).
            conv_search c < length (searches st @ [?new])
            \<and> containsPoint g (targetRect ((searches st @ [?new]) ! conv_search c)) (conv_geolocation c)
            \<and> (\<forall>t \<in> set (titlesFound c). located g (targetRect ((searches st @ [?new]) ! conv_search c)) t)"
    using assms by (auto simp: search_invariant_def old less_Suc_eq)
  have s: "\<forall>s \<in> set (searches st @ [?new]).
            targetRect s \<in> insert R A
            \<and> (\<forall>e \<in> set (titlePositionsFound s). containsPoint g (targetRect s) (snd e))"
    using assms by (auto simp: search_invariant_def)
  have o: "\<forall>sid ts. Callback sid ts \<in> set (outputs st) \<longrightarrow>
              sid < length (searches st @ [?new])
              \<and> sorted (map (\<lambda>a. distance g (center g (targetRect ((searches st @ [?new]) ! sid)))
                                  (the (geolocation a))) ts)
              \<and> (\<forall>t \<in> set ts. located g (targetRect ((searches st @ [?new]) ! sid)) t)"
  proof (intro allI impI)
    fix sid ts
    assume "Callback sid ts \<in> set (outputs st)"
    with assms have "sid < length (searches st)"
      and "sorted (map (\<lambda>a. distance g (center g (targetRect (searches st ! sid)))
                                  (the (geolocation a))) ts)"
      and "\<forall>t \<in> set ts. located g (targetRect (searches st ! sid)) t"
      unfolding search_invariant_def by blast+
    then show "sid < length (searches st @ [?new])
              \<and> sorted (map (\<lambda>a. distance g (center g (targetRect ((searches st @ [?new]) ! sid)))
                                  (the (geolocation a))) ts)
              \<and> (\<forall>t \<in> set ts. located g (targetRect ((searches st @ [?new]) ! sid)) t)"
      by (simp add: old)
  qed
  show ?thesis
    unfolding search_invariant_def using r c s o by simp
qed

lemma getTitlesInCoords_props:
  assumes "search_invariant g A st"
  shows "search_invariant g (insert (normalized g R) A) (state_of (getTitlesInCoords g files R n st))"
proof (cases "0 < callbackCounterForTitlesInCoordsSearch st")
  case True
  have "search_invariant g (insert (normalized g R) A) st"
    using assms by (rule inv_mono) auto
  then show ?thesis
    using True by (simp add: getTitlesInCoords_def inv_add_alert)
next
  case False
  let ?st1 = "st\<lparr>searches := searches st @
                 [\<lparr>targetRect = normalized g R, maxTitles = n, titlePositionsFound = []\<rparr>]\<rparr>"
  have "search_invariant g (insert (normalized g R) A) ?st1"
    by (rule inv_add_search [OF assms])
  moreover have "length (searches st) < length (searches ?st1)" by simp
  ultimately have "search_invariant g (insert (normalized g R) A)
      (state_of (coordinate_files_loop g files (length (searches st)) [0..<length files] ?st1))"
    by (rule coordinate_files_loop_props)
  then show ?thesis
    using False by (simp add: getTitlesInCoords_def Let_def)
qed

lemma step_props:
  assumes "search_invariant g (calls g events) st"
  shows "search_invariant g (calls g (events @ [ev])) (step g files iter st ev)"
proof (cases ev)
  case (Call R n)
  have "calls g (events @ [ev]) = insert (normalized g R) (calls g events)"
    using Call by (auto simp: calls_def)
  with getTitlesInCoords_props [OF assms, of R files n] Call show ?thesis
    by (simp add: inv_settle)
next
  case (Load k)
  have same: "calls g (events @ [ev]) = calls g events"
    using Load by (auto simp: calls_def)
  show ?thesis
  proof (cases "k < length (reads st)")
    case True
    then have "reads st ! k \<in> set (reads st)" by simp
    with assms have "read_search (reads st ! k) < length (searches st)"
      by (simp add: search_invariant_def)
    with onload_props [OF inv_remove_read [OF assms, of k], of "reads st ! k" files] True Load same
    show ?thesis by (simp add: inv_settle)
  next
    case False
    with assms Load same show ?thesis by simp
  qed
next
  case (TitleLoad k)
  have same: "calls g (events @ [ev]) = calls g events"
    using TitleLoad by (auto simp: calls_def)
  show ?thesis
  proof (cases "k < length (conversions st)")
    case True
    then have "conversions st ! k \<in> set (conversions st)" by simp
    with assms have c: "conv_search (conversions st ! k) < length (searches st)"
      "containsPoint g (targetRect (searches st ! conv_search (conversions st ! k)))
         (conv_geolocation (conversions st ! k))"
      "\<forall>t \<in> set (titlesFound (conversions st ! k)).
         located g (targetRect (searches st ! conv_search (conversions st ! k))) t"
      by (simp_all add: search_invariant_def)
    have "search_invariant g (calls g events)
            (state_of (titleList_callback g iter (conversions st ! k)
                         (st\<lparr>conversions := remove_nth k (conversions st)\<rparr>)))"
      using c by (intro titleList_callback_props inv_remove_conversion assms) simp_all
    with True TitleLoad same show ?thesis by (simp add: inv_settle)
  next
    case False
    with assms TitleLoad same show ?thesis by simp
  qed
qed

lemma run_snoc: "run g files iter (events @ [ev]) st = step g files iter (run g files iter events st) ev"
  by (simp add: run_def)

lemma inv_run: "search_invariant g (calls g events) (run g files iter events initial_state)"
proof (induction events rule: rev_induct)
  case Nil
  show ?case by (simp add: run_def initial_state_def search_invariant_def)
next
  case (snoc ev events)
  then show ?case by (simp add: run_snoc step_props)
qed


section \<open>The target rectangle of a search never changes\<close>

lemma rects_settle: "searches (settle c) = searches (state_of c)"
  by (cases c) simp_all

lemma rects_descend:
  "searches (state_of (descend g files r target children st)) = searches st"
proof (induction children arbitrary: st)
  case Nil
  show ?case by simp
next
  case (Cons ch children)
  obtain rect pos where ch: "ch = (rect, pos)" by (cases ch)
  let ?c = "getTitlesInCoordsInt files (r\<lparr>coordFilePos := pos, thisRect := rect\<rparr>)
              (st\<lparr>callbackCounterForTitlesInCoordsSearch :=
                    callbackCounterForTitlesInCoordsSearch st + 1\<rparr>)"
  have s1: "searches (state_of ?c) = searches st" by simp
  show ?case
  proof (cases ?c)
    case (Completed st')
    with s1 have "searches st' = searches st" by simp
    with Cons.IH [of st'] Cons.IH [of st] ch Completed show ?thesis by simp
  next
    case (Threw e st')
    with s1 Cons.IH [of st] ch show ?thesis by simp
  qed
qed

lemma rects_inner_node:
  "searches (state_of (inner_node g files r target byteArray st)) = searches st"
  by (simp add: inner_node_def Let_def rects_descend del: descend.simps split: option.split)

lemma rects_readTitles:
  "searches (state_of (readTitlesFromTitleCoordsInTitleFile sid i found st)) = searches st"
  by (simp add: readTitlesFromTitleCoordsInTitleFile_def Let_def)

lemma rects_callbackGet: "searches (state_of (callbackGetTitlesInCoordsInt sid st)) = searches st"
  by (simp add: callbackGetTitlesInCoordsInt_def rects_readTitles)

lemma rects_finish: "searches (state_of (finish sid st)) = searches st"
  by (simp add: finish_def rects_callbackGet)

lemma rects_update_found:
  "map targetRect (xs[sid := (xs ! sid)\<lparr>titlePositionsFound := found\<rparr>]) = map targetRect xs"
proof (cases "sid < length xs")
  case True
  then show ?thesis by (simp add: map_update list_update_same_conv)
next
  case False
  then show ?thesis by (simp add: list_update_beyond)
qed

lemma rects_onload:
  "map targetRect (searches (state_of (onload g files r st))) = map targetRect (searches st)"
proof -
  let ?st = "st\<lparr>callbackCounterForTitlesInCoordsSearch :=
                  callbackCounterForTitlesInCoordsSearch st - 1\<rparr>"
  let ?sid = "read_search r"
  let ?s = "searches ?st ! ?sid"
  have inner: "searches (state_of (case inner_node g files r (targetRect ?s) (blob r) ?st of
                                    Threw e st' \<Rightarrow> Threw e st'
                                  | Completed st' \<Rightarrow> finish ?sid st')) = searches st"
    using rects_inner_node [of g files r "targetRect ?s" "blob r" ?st]
    by (cases "inner_node g files r (targetRect ?s) (blob r) ?st") (simp_all add: rects_finish)
  have leaf: "map targetRect (searches (state_of (case c of
                        Threw e found \<Rightarrow>
                          Threw e (?st\<lparr>searches := (searches ?st)
                                       [?sid := ?s\<lparr>titlePositionsFound := found\<rparr>]\<rparr>)
                      | Completed found \<Rightarrow>
                          finish ?sid (?st\<lparr>searches := (searches ?st)
                                          [?sid := ?s\<lparr>titlePositionsFound := found\<rparr>]\<rparr>))))
              = map targetRect (searches st)" for c
    by (cases c) (simp_all add: rects_finish rects_update_found)
  show ?thesis
    unfolding onload_def Let_def
    using inner leaf by (simp add: rects_finish split: option.split)
qed

lemma rects_titleList_callback:
  "searches (state_of (titleList_callback g iter c st)) = searches st"
  by (simp add: titleList_callback_def Let_def rects_readTitles)

lemma rects_coordinate_files_loop:
  "searches (state_of (coordinate_files_loop g files sid idxs st)) = searches st"
proof (induction idxs arbitrary: st)
  case Nil
  show ?case by simp
next
  case (Cons i rest)
  let ?c = "getTitlesInCoordsInt files
              \<lparr>read_search = sid, coordinateFileIndex = i, coordFilePos = 0,
               thisRect = GLOBE_RECTANGLE g, blob = []\<rparr>
              (st\<lparr>callbackCounterForTitlesInCoordsSearch :=
                    callbackCounterForTitlesInCoordsSearch st + 1\<rparr>)"
  have s1: "searches (state_of ?c) = searches st" by simp
  show ?case
  proof (cases ?c)
    case (Completed st')
    with s1 have "searches st' = searches st" by simp
    with Cons.IH [of st'] Completed show ?thesis by simp
  next
    case (Threw e st')
    with s1 show ?thesis by simp
  qed
qed

lemma rects_accepted_call:
  assumes "callbackCounterForTitlesInCoordsSearch st \<le> 0"
  shows "map targetRect (searches (step g files iter st (Call R n)))
         = map targetRect (searches st) @ [normalized g R]"
  using assms
  by (simp add: getTitlesInCoords_def Let_def rects_settle rects_coordinate_files_loop)

lemma rects_step:
  "\<exists>ext. map targetRect (searches (step g files iter st ev)) = map targetRect (searches st) @ ext"
proof (cases ev)
  case (Call R n)
  show ?thesis
  proof (cases "0 < callbackCounterForTitlesInCoordsSearch st")
    case True
    with Call show ?thesis by (simp add: getTitlesInCoords_def)
  next
    case False
    with Call rects_accepted_call [of st g files iter R n] show ?thesis by simp
  qed
next
  case (Load k)
  then show ?thesis by (simp add: rects_settle rects_onload)
next
  case (TitleLoad k)
  then show ?thesis by (simp add: rects_settle rects_titleList_callback)
qed

lemma rects_run:
  "\<exists>ext. map targetRect (searches (run g files iter events st)) = map targetRect (searches st) @ ext"
proof (induction events rule: rev_induct)
  case Nil
  show ?case by (simp add: run_def)
next
  case (snoc ev events)
  then obtain ext where e: "map targetRect (searches (run g files iter events st))
                            = map targetRect (searches st) @ ext"
    by blast
  from rects_step [of g files iter "run g files iter events st" ev] obtain ext' where
    "map targetRect (searches (run g files iter (events @ [ev]) st))
     = map targetRect (searches (run g files iter events st)) @ ext'"
    by (auto simp: run_snoc)
  with e show ?case by simp
qed

lemma run_append:
  "run g files iter (events @ events') st = run g files iter events' (run g files iter events st)"
  by (simp add: run_def)

text \<open>The search that an accepted call creates keeps the normalized rectangle of the call.\<close>

lemma rect_of_accepted_call:
  assumes "callbackCounterForTitlesInCoordsSearch (run g files iter before st) \<le> 0"
  shows "length (searches (run g files iter before st))
           < length (searches (run g files iter (before @ Call R n # after) st))
         \<and> targetRect (searches (run g files iter (before @ Call R n # after) st)
                         ! length (searches (run g files iter before st)))
           = normalized g R"
proof -
  let ?st0 = "run g files iter before st"
  let ?st1 = "step g files iter ?st0 (Call R n)"
  let ?st2 = "run g files iter (before @ Call R n # after) st"
  have split: "?st2 = run g files iter after ?st1"
    by (simp add: run_def)
  have one: "map targetRect (searches ?st1) = map targetRect (searches ?st0) @ [normalized g R]"
    using assms by (rule rects_accepted_call)
  from rects_run [of g files iter after ?st1] obtain ext where
    "map targetRect (searches ?st2) = map targetRect (searches ?st1) @ ext"
    unfolding split by blast
  with one have all: "map targetRect (searches ?st2)
                      = map targetRect (searches ?st0) @ normalized g R # ext"
    by simp
  from arg_cong [OF all, of length] have len: "length (searches ?st0) < length (searches ?st2)"
    by simp
  have "map targetRect (searches ?st2) ! length (searches ?st0) = normalized g R"
    unfolding all by (simp add: nth_append)
  with len show ?thesis by simp
qed


text \<open>
  Two searches one after the other on a leaf of three entries: the first, of the rectangle
  (0, 55, 10, 10), finds the entry at latitude 60; the second, of the rectangle
  (10, 45, -10, 10) with its negative width, finds the entries at title offsets 100 and 200
  in the order of the file and delivers them nearest first.
\<close>

lemma two_searches_before:
  "run test_geometry [Some test_leaf3] test_iterator
     [Call (0, 55, 10, 10) 5, Load 0, TitleLoad 0] initial_state
   = \<lparr>callbackCounterForTitlesInCoordsSearch = 0,
      searches = [\<lparr>targetRect = (0, 55, 10, 10), maxTitles = 5, titlePositionsFound = [(150, 2, 60)]\<rparr>],
      reads = [], conversions = [],
      outputs = [Callback 0 [\<lparr>name = ''Paris'', fileNr = Number 0, blockStart = 0, blockOffset = 0,
                              articleLength = 1, titleOffset = Some 150, geolocation = Some (2, 60)\<rparr>]]\<rparr>"
  by (simp add: spatial_eval)

lemma two_searches_delivered:
  "outputs (run test_geometry [Some test_leaf3] test_iterator
     ([Call (0, 55, 10, 10) 5, Load 0, TitleLoad 0]
      @ Call (10, 45, - 10, 10) 5 # [Load 0, TitleLoad 0, TitleLoad 0]) initial_state)
   = [Callback 0 [\<lparr>name = ''Paris'', fileNr = Number 0, blockStart = 0, blockOffset = 0,
                   articleLength = 1, titleOffset = Some 150, geolocation = Some (2, 60)\<rparr>],
      Callback 1 [\<lparr>name = ''Paris'', fileNr = Number 0, blockStart = 0, blockOffset = 0,
                   articleLength = 1, titleOffset = Some 200, geolocation = Some (5, 50)\<rparr>,
                  \<lparr>name = ''Paris'', fileNr = Number 0, blockStart = 0, blockOffset = 0,
                   articleLength = 1, titleOffset = Some 100, geolocation = Some (2, 48)\<rparr>]]"
  by (simp add: spatial_eval)

text \<open>
  C5: whatever happened before and whatever the order in which the reads complete, when a
  call \<open>getTitlesInCoords(R, n)\<close> is accepted (the pending counter is not positive), every
  list that the callback of this call receives is sorted ascending by the distance from
  the center of the rectangle the search works with (the normalized \<open>R\<close>, whose center
  is \<open>R.center()\<close> when normalizing keeps the center) to each title's geolocation, and
  every title in it has a geolocation that the normalized \<open>R\<close> contains. The search
  created by the call is the one numbered by the count of the searches before it.
\<close>

theorem delivered_sorted_inside:
  assumes "callbackCounterForTitlesInCoordsSearch (run g files iter before initial_state) \<le> 0"
    and "Callback (length (searches (run g files iter before initial_state))) titles
           \<in> set (outputs (run g files iter (before @ Call R n # after) initial_state))"
  shows "sorted (map (\<lambda>t. distance g (center g (normalized g R)) (the (geolocation t))) titles)
         \<and> (center g (normalized g R) = center g R \<longrightarrow>
              sorted (map (\<lambda>t. distance g (center g R) (the (geolocation t))) titles))
         \<and> (\<forall>t \<in> set titles. \<exists>p. geolocation t = Some p \<and> containsPoint g (normalized g R) p)"
proof -
  let ?sid = "length (searches (run g files iter before initial_state))"
  let ?events = "before @ Call R n # after"
  let ?st = "run g files iter ?events initial_state"
  have r: "targetRect (searches ?st ! ?sid) = normalized g R"
    using rect_of_accepted_call [OF assms(1)] by blast
  have i: "search_invariant g (calls g ?events) ?st" by (rule inv_run)
  with assms(2) have srt: "sorted (map (\<lambda>a. distance g (center g (targetRect (searches ?st ! ?sid)))
                                (the (geolocation a))) titles)"
    and loc: "\<forall>t \<in> set titles. located g (targetRect (searches ?st ! ?sid)) t"
    unfolding search_invariant_def by blast+
  have "\<forall>t \<in> set titles. \<exists>p. geolocation t = Some p \<and> containsPoint g (normalized g R) p"
    using loc unfolding r by (auto simp: located_def split: option.splits)
  with srt r show ?thesis by auto
qed

theorem delivered_sorted_inside_witness:
  "callbackCounterForTitlesInCoordsSearch
     (run test_geometry [Some test_leaf3] test_iterator
        [Call (0, 55, 10, 10) 5, Load 0, TitleLoad 0] initial_state) \<le> 0
   \<and> Callback (length (searches (run test_geometry [Some test_leaf3] test_iterator
                                   [Call (0, 55, 10, 10) 5, Load 0, TitleLoad 0] initial_state)))
        [\<lparr>name = ''Paris'', fileNr = Number 0, blockStart = 0, blockOffset = 0,
          articleLength = 1, titleOffset = Some 200, geolocation = Some (5, 50)\<rparr>,
         \<lparr>name = ''Paris'', fileNr = Number 0, blockStart = 0, blockOffset = 0,
          articleLength = 1, titleOffset = Some 100, geolocation = Some (2, 48)\<rparr>]
       \<in> set (outputs (run test_geometry [Some test_leaf3] test_iterator
                ([Call (0, 55, 10, 10) 5, Load 0, TitleLoad 0]
                 @ Call (10, 45, - 10, 10) 5 # [Load 0, TitleLoad 0, TitleLoad 0]) initial_state))
   \<and> sorted (map (\<lambda>t. distance test_geometry (center test_geometry (10, 45, - 10, 10))
                        (the (geolocation t)))
        [\<lparr>name = ''Paris'', fileNr = Number 0, blockStart = 0, blockOffset = 0,
          articleLength = 1, titleOffset = Some 200, geolocation = Some (5, 50)\<rparr>,
         \<lparr>name = ''Paris'', fileNr = Number 0, blockStart = 0, blockOffset = 0,
          articleLength = 1, titleOffset = Some 100, geolocation = Some (2, 48)\<rparr>])
   \<and> containsPoint test_geometry (normalized test_geometry (10, 45, - 10, 10)) (5, 50)
   \<and> containsPoint test_geometry (normalized test_geometry (10, 45, - 10, 10)) (2, 48)"
proof -
  let ?before = "[Call (0, 55, 10, 10) 5, Load 0, TitleLoad 0] :: test_rect event list"
  let ?after = "[Load 0, TitleLoad 0, TitleLoad 0] :: test_rect event list"
  let ?R = "(10, 45, - 10, 10) :: test_rect"
  let ?titles = "[\<lparr>name = ''Paris'', fileNr = Number 0, blockStart = 0, blockOffset = 0,
          articleLength = 1, titleOffset = Some 200, geolocation = Some (5 :: int, 50 :: int)\<rparr>,
         \<lparr>name = ''Paris'', fileNr = Number 0, blockStart = 0, blockOffset = 0,
          articleLength = 1, titleOffset = Some 100, geolocation = Some (2, 48)\<rparr>]"
  have accepted: "callbackCounterForTitlesInCoordsSearch
     (run test_geometry [Some test_leaf3] test_iterator ?before initial_state) \<le> 0"
    unfolding two_searches_before by simp
  have delivered: "Callback (length (searches (run test_geometry [Some test_leaf3] test_iterator
                                   ?before initial_state))) ?titles
       \<in> set (outputs (run test_geometry [Some test_leaf3] test_iterator
                (?before @ Call ?R 5 # ?after) initial_state))"
    unfolding two_searches_delivered two_searches_before by simp
  have same_center: "center test_geometry (normalized test_geometry ?R) = center test_geometry ?R"
    by (simp add: test_geometry_def test_normalized_def)
  from delivered_sorted_inside [OF accepted delivered] same_center
  have "sorted (map (\<lambda>t. distance test_geometry (center test_geometry ?R) (the (geolocation t))) ?titles)"
    and "\<forall>t \<in> set ?titles. \<exists>p. geolocation t = Some p
            \<and> containsPoint test_geometry (normalized test_geometry ?R) p"
    by blast+
  with accepted delivered show ?thesis by simp
qed

section \<open>A search with nothing in flight stays silent\<close>

lemma quiet_counter [simp]:
  "quiet sid (st\<lparr>callbackCounterForTitlesInCoordsSearch := c\<rparr>) = quiet sid st"
  by (simp add: quiet_def)

lemma quiet_settle: "quiet sid (state_of c) \<Longrightarrow> quiet sid (settle c)"
  by (cases c) (auto simp: quiet_def)

lemma quiet_getTitlesInCoordsInt:
  "quiet sid st \<Longrightarrow> read_search r \<noteq> sid \<Longrightarrow> quiet sid (state_of (getTitlesInCoordsInt files r st))"
  by (auto simp: getTitlesInCoordsInt_def quiet_def split: option.split)

lemma quiet_descend:
  "quiet sid st \<Longrightarrow> read_search r \<noteq> sid
   \<Longrightarrow> quiet sid (state_of (descend g files r target children st))"
proof (induction children arbitrary: st)
  case Nil
  then show ?case by simp
next
  case (Cons ch children)
  obtain rect pos where ch: "ch = (rect, pos)" by (cases ch)
  let ?c = "getTitlesInCoordsInt files (r\<lparr>coordFilePos := pos, thisRect := rect\<rparr>)
              (st\<lparr>callbackCounterForTitlesInCoordsSearch :=
                    callbackCounterForTitlesInCoordsSearch st + 1\<rparr>)"
  have q1: "quiet sid (state_of ?c)"
    using Cons.prems by (intro quiet_getTitlesInCoordsInt) simp_all
  show ?case
  proof (cases ?c)
    case (Completed st')
    with q1 have "quiet sid st'" by simp
    with Cons.IH [of st'] Cons.IH [of st] Cons.prems ch Completed show ?thesis by simp
  next
    case (Threw e st')
    with q1 Cons.IH [of st] Cons.prems ch show ?thesis by simp
  qed
qed

lemma quiet_inner_node:
  "quiet sid st \<Longrightarrow> read_search r \<noteq> sid
   \<Longrightarrow> quiet sid (state_of (inner_node g files r target byteArray st))"
  by (simp add: inner_node_def Let_def quiet_descend del: descend.simps split: option.split)

lemma quiet_readTitles:
  "quiet sid st \<Longrightarrow> own \<noteq> sid
   \<Longrightarrow> quiet sid (state_of (readTitlesFromTitleCoordsInTitleFile own i found st))"
  by (auto simp: readTitlesFromTitleCoordsInTitleFile_def Let_def quiet_def)

lemma quiet_finish:
  "quiet sid st \<Longrightarrow> own \<noteq> sid \<Longrightarrow> quiet sid (state_of (finish own st))"
  using quiet_readTitles [of sid st own 0 "[]"]
  by (auto simp: finish_def callbackGetTitlesInCoordsInt_def quiet_def)

lemma quiet_update_found:
  "quiet sid st \<Longrightarrow> quiet sid (st\<lparr>searches := (searches st)[own := s]\<rparr>)"
  by (simp add: quiet_def)

lemma quiet_onload:
  assumes "quiet sid st" and "read_search r \<noteq> sid"
  shows "quiet sid (state_of (onload g files r st))"
proof -
  let ?st = "st\<lparr>callbackCounterForTitlesInCoordsSearch :=
                  callbackCounterForTitlesInCoordsSearch st - 1\<rparr>"
  let ?own = "read_search r"
  let ?s = "searches ?st ! ?own"
  have q: "quiet sid ?st" using assms by simp
  have fin: "quiet sid (state_of (finish ?own ?st))"
    by (rule quiet_finish [OF q assms(2)])
  have inner: "quiet sid (state_of (case inner_node g files r (targetRect ?s) (blob r) ?st of
                                    Threw e st' \<Rightarrow> Threw e st'
                                  | Completed st' \<Rightarrow> finish ?own st'))"
    using quiet_inner_node [OF q assms(2), of g files "targetRect ?s" "blob r"]
    by (cases "inner_node g files r (targetRect ?s) (blob r) ?st")
      (simp_all add: quiet_finish assms(2))
  have leaf: "quiet sid (state_of (case c of
                        Threw e found \<Rightarrow>
                          Threw e (?st\<lparr>searches := (searches ?st)
                                       [?own := ?s\<lparr>titlePositionsFound := found\<rparr>]\<rparr>)
                      | Completed found \<Rightarrow>
                          finish ?own (?st\<lparr>searches := (searches ?st)
                                          [?own := ?s\<lparr>titlePositionsFound := found\<rparr>]\<rparr>)))"
    for c :: "(nat \<times> 'a point) list completion"
    using quiet_update_found [OF q] by (cases c) (simp_all add: quiet_finish assms(2))
  show ?thesis
    unfolding onload_def Let_def
    using fin inner leaf q by (simp split: option.split)
qed

lemma quiet_titleList_callback:
  assumes "quiet sid st" and "conv_search c \<noteq> sid"
  shows "quiet sid (state_of (titleList_callback g iter c st))"
  using assms quiet_readTitles [OF assms]
  by (auto simp: titleList_callback_def Let_def quiet_def)

lemma quiet_coordinate_files_loop:
  "quiet sid st \<Longrightarrow> own \<noteq> sid \<Longrightarrow> quiet sid (state_of (coordinate_files_loop g files own idxs st))"
proof (induction idxs arbitrary: st)
  case Nil
  then show ?case by simp
next
  case (Cons i rest)
  let ?c = "getTitlesInCoordsInt files
              \<lparr>read_search = own, coordinateFileIndex = i, coordFilePos = 0,
               thisRect = GLOBE_RECTANGLE g, blob = []\<rparr>
              (st\<lparr>callbackCounterForTitlesInCoordsSearch :=
                    callbackCounterForTitlesInCoordsSearch st + 1\<rparr>)"
  have q1: "quiet sid (state_of ?c)"
    using Cons.prems by (intro quiet_getTitlesInCoordsInt) simp_all
  show ?case
  proof (cases ?c)
    case (Completed st')
    with q1 have "quiet sid st'" by simp
    with Cons.IH [of st'] Cons.prems Completed show ?thesis by simp
  next
    case (Threw e st')
    with q1 show ?thesis by simp
  qed
qed

lemma quiet_getTitlesInCoords:
  assumes "quiet sid st"
  shows "quiet sid (state_of (getTitlesInCoords g files R n st))"
proof (cases "0 < callbackCounterForTitlesInCoordsSearch st")
  case True
  with assms show ?thesis by (auto simp: getTitlesInCoords_def quiet_def)
next
  case False
  let ?st1 = "st\<lparr>searches := searches st @
                 [\<lparr>targetRect = normalized g R, maxTitles = n, titlePositionsFound = []\<rparr>]\<rparr>"
  have "quiet sid ?st1" using assms by (auto simp: quiet_def)
  moreover have "length (searches st) \<noteq> sid" using assms by (auto simp: quiet_def)
  ultimately have "quiet sid
      (state_of (coordinate_files_loop g files (length (searches st)) [0..<length files] ?st1))"
    by (rule quiet_coordinate_files_loop)
  with False show ?thesis by (simp add: getTitlesInCoords_def Let_def)
qed

lemma quiet_step:
  assumes "quiet sid st"
  shows "quiet sid (step g files iter st ev)"
proof (cases ev)
  case (Call R n)
  with quiet_getTitlesInCoords [OF assms, of g files R n] show ?thesis
    by (simp add: quiet_settle)
next
  case (Load k)
  show ?thesis
  proof (cases "k < length (reads st)")
    case True
    then have "reads st ! k \<in> set (reads st)" by simp
    with assms have ne: "read_search (reads st ! k) \<noteq> sid" by (simp add: quiet_def)
    have "quiet sid (st\<lparr>reads := remove_nth k (reads st)\<rparr>)"
      using assms set_remove_nth [of k "reads st"] by (auto simp: quiet_def)
    from quiet_onload [OF this, of "reads st ! k" g files] ne True Load show ?thesis
      by (simp add: quiet_settle)
  next
    case False
    with assms Load show ?thesis by simp
  qed
next
  case (TitleLoad k)
  show ?thesis
  proof (cases "k < length (conversions st)")
    case True
    then have "conversions st ! k \<in> set (conversions st)" by simp
    with assms have ne: "conv_search (conversions st ! k) \<noteq> sid" by (simp add: quiet_def)
    have "quiet sid (st\<lparr>conversions := remove_nth k (conversions st)\<rparr>)"
      using assms set_remove_nth [of k "conversions st"] by (auto simp: quiet_def)
    from quiet_titleList_callback [OF this, of "conversions st ! k" g iter] ne True TitleLoad
    show ?thesis by (simp add: quiet_settle)
  next
    case False
    with assms TitleLoad show ?thesis by simp
  qed
qed

lemma quiet_run: "quiet sid st \<Longrightarrow> quiet sid (run g files iter events st)"
  unfolding run_def by (induction events arbitrary: st) (simp_all add: quiet_step)

text \<open>
  C10: on an archive without coordinate files, with the counter at 0, getTitlesInCoords
  starts no read, leaves the counter at 0, reports nothing, and the callback of this
  call is never invoked, whatever completes or is called afterwards.
\<close>

theorem getTitlesInCoords_no_coordinate_files:
  assumes "callbackCounterForTitlesInCoordsSearch st = 0" and "well_formed st"
  shows "\<exists>st'. getTitlesInCoords g [] rect limit st = Completed st'
           \<and> reads st' = reads st \<and> conversions st' = conversions st
           \<and> outputs st' = outputs st
           \<and> callbackCounterForTitlesInCoordsSearch st' = 0
           \<and> (\<forall>files iter events titles.
                 Callback (length (searches st)) titles
                   \<notin> set (outputs (run g files iter events st')))"
proof -
  let ?st' = "st\<lparr>searches := searches st @
                 [\<lparr>targetRect = normalized g rect, maxTitles = limit, titlePositionsFound = []\<rparr>]\<rparr>"
  have call: "getTitlesInCoords g [] rect limit st = Completed ?st'"
    using assms(1) by (simp add: getTitlesInCoords_def)
  have "quiet (length (searches st)) ?st'"
    using assms(2) by (auto simp: quiet_def well_formed_def)
  then have "quiet (length (searches st)) (run g files iter events ?st')" for files iter events
    by (rule quiet_run)
  then have "\<forall>files iter events titles.
                 Callback (length (searches st)) titles
                   \<notin> set (outputs (run g files iter events ?st'))"
    by (simp add: quiet_def)
  with call assms(1) show ?thesis by simp
qed

theorem getTitlesInCoords_no_coordinate_files_witness:
  "callbackCounterForTitlesInCoordsSearch (initial_state :: (int, test_rect) state) = 0
   \<and> well_formed (initial_state :: (int, test_rect) state)
   \<and> Callback 0 [] \<notin> set (outputs (run test_geometry [] test_iterator [Load 0, TitleLoad 0]
         (state_of (getTitlesInCoords test_geometry [] (0, 45, 10, 10) 5 initial_state))))"
proof -
  have c: "callbackCounterForTitlesInCoordsSearch (initial_state :: (int, test_rect) state) = 0"
    by (simp add: initial_state_def)
  have w: "well_formed (initial_state :: (int, test_rect) state)"
    by (simp add: initial_state_def well_formed_def)
  obtain st' where call: "getTitlesInCoords test_geometry [] (0, 45, 10, 10) 5 initial_state
                            = Completed st'"
    and never: "\<forall>files iter events titles.
                  Callback (length (searches (initial_state :: (int, test_rect) state))) titles
                    \<notin> set (outputs (run test_geometry files iter events st'))"
    using getTitlesInCoords_no_coordinate_files [OF c w, of test_geometry "(0, 45, 10, 10)" 5]
    by blast
  have "length (searches (initial_state :: (int, test_rect) state)) = 0"
    by (simp add: initial_state_def)
  with never have "Callback 0 [] \<notin> set (outputs (run test_geometry [] test_iterator
                                                     [Load 0, TitleLoad 0] st'))"
    by metis
  with c w call show ?thesis by simp
qed

section \<open>The pending counter and the guard of getTitlesInCoords\<close>

lemma io_getTitlesInCoordsInt [simp]:
  "conversions (state_of (getTitlesInCoordsInt files r st)) = conversions st"
  "outputs (state_of (getTitlesInCoordsInt files r st)) = outputs st"
  by (simp_all add: getTitlesInCoordsInt_def split: option.split)

lemma io_descend:
  "conversions (state_of (descend g files r target children st)) = conversions st
   \<and> outputs (state_of (descend g files r target children st)) = outputs st"
proof (induction children arbitrary: st)
  case Nil
  show ?case by simp
next
  case (Cons ch children)
  obtain rect pos where ch: "ch = (rect, pos)" by (cases ch)
  let ?c = "getTitlesInCoordsInt files (r\<lparr>coordFilePos := pos, thisRect := rect\<rparr>)
              (st\<lparr>callbackCounterForTitlesInCoordsSearch :=
                    callbackCounterForTitlesInCoordsSearch st + 1\<rparr>)"
  have c: "conversions (state_of ?c) = conversions st" "outputs (state_of ?c) = outputs st"
    by simp_all
  show ?case
  proof (cases ?c)
    case (Completed st')
    with c Cons.IH [of st'] Cons.IH [of st] ch show ?thesis by simp
  next
    case (Threw e st')
    with c Cons.IH [of st] ch show ?thesis by simp
  qed
qed

lemma io_inner_node:
  "conversions (state_of (inner_node g files r target byteArray st)) = conversions st
   \<and> outputs (state_of (inner_node g files r target byteArray st)) = outputs st"
  by (simp add: inner_node_def Let_def io_descend del: descend.simps split: option.split)

lemma finish_counter:
  "callbackCounterForTitlesInCoordsSearch (state_of (finish sid st))
     = callbackCounterForTitlesInCoordsSearch st"
  by (simp add: finish_def callbackGetTitlesInCoordsInt_def
      readTitlesFromTitleCoordsInTitleFile_def Let_def)

lemma finish_pending:
  "callbackCounterForTitlesInCoordsSearch st \<noteq> 0 \<Longrightarrow> finish sid st = Completed st"
  by (simp add: finish_def)

lemma finish_io:
  assumes "callbackCounterForTitlesInCoordsSearch (state_of (finish sid st)) \<noteq> 0"
  shows "conversions (state_of (finish sid st)) = conversions st
         \<and> outputs (state_of (finish sid st)) = outputs st"
  using assms by (simp add: finish_counter finish_pending)

lemma onload_io:
  assumes "callbackCounterForTitlesInCoordsSearch (state_of (onload g files r st)) \<noteq> 0"
  shows "conversions (state_of (onload g files r st)) = conversions st
         \<and> outputs (state_of (onload g files r st)) = outputs st"
proof -
  let ?st = "st\<lparr>callbackCounterForTitlesInCoordsSearch :=
                  callbackCounterForTitlesInCoordsSearch st - 1\<rparr>"
  let ?sid = "read_search r"
  let ?s = "searches ?st ! ?sid"
  let ?P = "\<lambda>c. callbackCounterForTitlesInCoordsSearch (state_of c) \<noteq> 0 \<longrightarrow>
                conversions (state_of c) = conversions st \<and> outputs (state_of c) = outputs st"
  have fin: "?P (finish ?sid ?st)"
    using finish_io [of ?sid ?st] by simp
  have inner: "?P (case inner_node g files r (targetRect ?s) (blob r) ?st of
                     Threw e st' \<Rightarrow> Threw e st'
                   | Completed st' \<Rightarrow> finish ?sid st')"
  proof (cases "inner_node g files r (targetRect ?s) (blob r) ?st")
    case (Completed st')
    with io_inner_node [of g files r "targetRect ?s" "blob r" ?st] finish_io [of ?sid st']
    show ?thesis by simp
  next
    case (Threw e st')
    with io_inner_node [of g files r "targetRect ?s" "blob r" ?st] show ?thesis by simp
  qed
  have leaf: "?P (case c of
                    Threw e found \<Rightarrow>
                      Threw e (?st\<lparr>searches := (searches ?st)
                                   [?sid := ?s\<lparr>titlePositionsFound := found\<rparr>]\<rparr>)
                  | Completed found \<Rightarrow>
                      finish ?sid (?st\<lparr>searches := (searches ?st)
                                      [?sid := ?s\<lparr>titlePositionsFound := found\<rparr>]\<rparr>))"
    for c :: "(nat \<times> 'a point) list completion"
  proof (cases c)
    case (Completed found)
    with finish_io [of ?sid "?st\<lparr>searches := (searches ?st)
                                      [?sid := ?s\<lparr>titlePositionsFound := found\<rparr>]\<rparr>"]
    show ?thesis by simp
  next
    case (Threw e found)
    then show ?thesis by simp
  qed
  have "?P (onload g files r st)"
    unfolding onload_def Let_def
    using fin inner leaf by (simp split: option.split)
  with assms show ?thesis by simp
qed

text \<open>
  C9, as stated, fails for a negative counter. One call starts a read (counter 1), a
  second call is rejected and resets the counter to 0, then the read of the first call
  completes and takes the counter to -1. The counter is nonzero, and a third call is
  not rejected: it starts its descent (a read for search 1 is in flight) and no second
  alert is raised.
\<close>

theorem guard_counterexample:
  "callbackCounterForTitlesInCoordsSearch
     (run test_geometry [Some test_leaf] test_iterator
        [Call (0, 45, 10, 10) 5, Call (0, 45, 10, 10) 5, Load 0] initial_state) = - 1
   \<and> reads (run test_geometry [Some test_leaf] test_iterator
        [Call (0, 45, 10, 10) 5, Call (0, 45, 10, 10) 5, Load 0, Call (0, 45, 10, 10) 5]
        initial_state)
     = [\<lparr>read_search = 1, coordinateFileIndex = 0, coordFilePos = 0,
         thisRect = (- 181, - 91, 362, 182), blob = test_leaf\<rparr>]
   \<and> outputs (run test_geometry [Some test_leaf] test_iterator
        [Call (0, 45, 10, 10) 5, Call (0, 45, 10, 10) 5, Load 0, Call (0, 45, 10, 10) 5]
        initial_state)
     = [Alert ''The last nearby search did not seem to end well : please try again'']"
  by (simp add: spatial_eval)

text \<open>
  C9, amended: a call of getTitlesInCoords made while the counter is positive starts no
  descent, reports the retry message and resets the counter to 0; and a read handler
  that leaves the counter nonzero has not run the completion callback: it has started no
  title read and delivered nothing.
\<close>

theorem getTitlesInCoords_guard:
  "(0 < callbackCounterForTitlesInCoordsSearch st \<longrightarrow>
      getTitlesInCoords g files rect limit st =
        Completed (st\<lparr>outputs := outputs st @
                       [Alert ''The last nearby search did not seem to end well : please try again''],
                     callbackCounterForTitlesInCoordsSearch := 0\<rparr>))
   \<and> (callbackCounterForTitlesInCoordsSearch (state_of (onload g files r st)) \<noteq> 0 \<longrightarrow>
        conversions (state_of (onload g files r st)) = conversions st
        \<and> outputs (state_of (onload g files r st)) = outputs st)"
  using onload_io [of g files r st] by (simp add: getTitlesInCoords_def)

theorem getTitlesInCoords_guard_witness:
  "0 < callbackCounterForTitlesInCoordsSearch
         (run test_geometry [Some test_leaf, Some test_leaf] test_iterator
            [Call (0, 45, 10, 10) 5] initial_state)
   \<and> outputs (state_of (getTitlesInCoords test_geometry [Some test_leaf, Some test_leaf]
                  (0, 45, 10, 10) 5
                  (run test_geometry [Some test_leaf, Some test_leaf] test_iterator
                     [Call (0, 45, 10, 10) 5] initial_state)))
       = [Alert ''The last nearby search did not seem to end well : please try again'']
   \<and> callbackCounterForTitlesInCoordsSearch
        (state_of (onload test_geometry [Some test_leaf, Some test_leaf]
           \<lparr>read_search = 0, coordinateFileIndex = 0, coordFilePos = 0,
            thisRect = (- 181, - 91, 362, 182), blob = test_leaf\<rparr>
           (run test_geometry [Some test_leaf, Some test_leaf] test_iterator
              [Call (0, 45, 10, 10) 5] initial_state))) = 1
   \<and> conversions
        (state_of (onload test_geometry [Some test_leaf, Some test_leaf]
           \<lparr>read_search = 0, coordinateFileIndex = 0, coordFilePos = 0,
            thisRect = (- 181, - 91, 362, 182), blob = test_leaf\<rparr>
           (run test_geometry [Some test_leaf, Some test_leaf] test_iterator
              [Call (0, 45, 10, 10) 5] initial_state))) = []"
proof -
  let ?files = "[Some test_leaf, Some test_leaf]"
  let ?st = "run test_geometry ?files test_iterator [Call (0, 45, 10, 10) 5] initial_state"
  let ?r = "\<lparr>read_search = 0, coordinateFileIndex = 0, coordFilePos = 0,
             thisRect = (- 181, - 91, 362, 182), blob = test_leaf\<rparr>"
  have st: "?st = \<lparr>callbackCounterForTitlesInCoordsSearch = 2,
        searches = [\<lparr>targetRect = (0, 45, 10, 10), maxTitles = 5, titlePositionsFound = []\<rparr>],
        reads = [?r, ?r\<lparr>coordinateFileIndex := 1\<rparr>], conversions = [], outputs = []\<rparr>"
    by (simp add: spatial_eval)
  have pos: "0 < callbackCounterForTitlesInCoordsSearch ?st"
    unfolding st by simp
  have cnt: "callbackCounterForTitlesInCoordsSearch (state_of (onload test_geometry ?files ?r ?st)) = 1"
    unfolding st by (simp add: spatial_eval)
  then have ne: "callbackCounterForTitlesInCoordsSearch (state_of (onload test_geometry ?files ?r ?st)) \<noteq> 0"
    by simp
  from getTitlesInCoords_guard [of ?st test_geometry ?files "(0, 45, 10, 10)" 5 ?r] pos ne
  have "getTitlesInCoords test_geometry ?files (0, 45, 10, 10) 5 ?st =
        Completed (?st\<lparr>outputs := outputs ?st @
                       [Alert ''The last nearby search did not seem to end well : please try again''],
                     callbackCounterForTitlesInCoordsSearch := 0\<rparr>)"
    and "conversions (state_of (onload test_geometry ?files ?r ?st)) = conversions ?st"
    by blast+
  moreover have "conversions ?st = []" "outputs ?st = []" unfolding st by simp_all
  ultimately show ?thesis using pos cnt by simp
qed

section \<open>A negative bound\<close>

lemma leaf_entries_negative:
  "limit < 0 \<Longrightarrow> state_of (leaf_entries g byteArray target limit idxs found) = found"
  by (induction idxs) (simp_all add: Let_def split: option.split)

text \<open>
  C1: with \<open>maxTitles = -1\<close> the leaf loop pushes nothing. The leaf of the fixture has
  one entry, at a point the target rectangle contains; the search with bound -1 ends
  with an empty array and hands the empty list to the callback.
\<close>

theorem unbounded_search_finds_nothing:
  "containsPoint test_geometry (normalized test_geometry (0, 45, 10, 10)) (2, 48)
   \<and> readCoordinates test_geometry test_leaf 2 = Some (2, 48)
   \<and> run test_geometry [Some test_leaf] test_iterator [Call (0, 45, 10, 10) (- 1), Load 0]
        initial_state
     = \<lparr>callbackCounterForTitlesInCoordsSearch = 0,
        searches = [\<lparr>targetRect = (0, 45, 10, 10), maxTitles = - 1, titlePositionsFound = []\<rparr>],
        reads = [], conversions = [], outputs = [Callback 0 []]\<rparr>"
  by (simp add: spatial_eval)

end
